theory Spec2Isabelle
  imports Complex_Main "HOL-Library.Sublist" "HOL-Library.Multiset"
begin

section \<open>JavaScript strings and the built-ins the bookmark manager calls\<close>

text \<open>
  A JavaScript string is a sequence of UTF-16 code units, so it is modelled as a list of
  natural numbers. This matters here: the tag separators of \<^verbatim>\<open>script.js\<close> include the
  full-width comma U+FF0C and the full-width semicolon U+FF1B, which are single code units.
  \<open>js\<close> turns an ASCII literal into such a string.
\<close>

type_synonym jstring = "nat list"

definition js :: "string \<Rightarrow> jstring" where
  "js s = map of_char s"

text \<open>
  The record both implementations keep for a bookmark: \<^verbatim>\<open>id\<close>, \<^verbatim>\<open>name\<close>,
  \<^verbatim>\<open>url\<close>, \<^verbatim>\<open>tags\<close> and \<^verbatim>\<open>createdAt\<close>.
\<close>

record bookmark =
  b_id :: nat
  b_name :: jstring
  b_url :: jstring
  b_tags :: "jstring list"
  b_createdAt :: jstring

text \<open>A number that may be NaN is an \<open>int option\<close>, with \<open>None\<close> for NaN. The
  subtraction of two time values is NaN when one of them is.\<close>

definition num_sub :: "int option \<Rightarrow> int option \<Rightarrow> int option" where
  "num_sub x y = (case x of None \<Rightarrow> None | Some a \<Rightarrow> (case y of None \<Rightarrow> None | Some b \<Rightarrow> Some (a - b)))"

definition nan_as_zero :: "int option \<Rightarrow> int" where
  "nan_as_zero v = (case v of None \<Rightarrow> 0 | Some i \<Rightarrow> i)"

text \<open>
  \<^verbatim>\<open>xs.sort(comparefn)\<close>. The sort reads the comparator through \<^verbatim>\<open>SortCompare\<close>, where
  a value NaN counts as 0. The sort of ECMAScript is stable, and for a comparator that
  never returns NaN and is consistent on the elements of the array its result is the one
  of the stable insertion sort \<open>js_sort\<close>. For any other comparator the order is the
  engine's own.
\<close>

definition SortCompare :: "('a \<Rightarrow> 'a \<Rightarrow> int option) \<Rightarrow> 'a \<Rightarrow> 'a \<Rightarrow> int" where
  "SortCompare comparefn x y = nan_as_zero (comparefn x y)"

fun js_insert :: "('a \<Rightarrow> 'a \<Rightarrow> int) \<Rightarrow> 'a \<Rightarrow> 'a list \<Rightarrow> 'a list" where
  "js_insert cmp x [] = [x]"
| "js_insert cmp x (y # ys) = (if cmp x y \<le> 0 then x # y # ys else y # js_insert cmp x ys)"

definition js_sort :: "('a \<Rightarrow> 'a \<Rightarrow> int) \<Rightarrow> 'a list \<Rightarrow> 'a list" where
  "js_sort cmp xs = foldr (js_insert cmp) xs []"

text \<open>A consistent comparator on the elements of an array: it never returns NaN, every
  element compares equal to itself, equality is symmetric, and equality, less and greater
  are transitive.\<close>

definition neverNaN :: "('a \<Rightarrow> 'a \<Rightarrow> int option) \<Rightarrow> 'a list \<Rightarrow> bool" where
  "neverNaN comparefn xs \<longleftrightarrow> list_all (\<lambda>a. list_all (\<lambda>b. comparefn a b \<noteq> None) xs) xs"

definition consistent :: "('a \<Rightarrow> 'a \<Rightarrow> int) \<Rightarrow> 'a list \<Rightarrow> bool" where
  "consistent cmp xs \<longleftrightarrow>
     list_all (\<lambda>a. cmp a a = 0 \<and>
       list_all (\<lambda>b. (cmp a b = 0 \<longrightarrow> cmp b a = 0) \<and>
         list_all (\<lambda>c. (cmp a b = 0 \<and> cmp b c = 0 \<longrightarrow> cmp a c = 0) \<and>
                        (cmp a b < 0 \<and> cmp b c < 0 \<longrightarrow> cmp a c < 0) \<and>
                        (cmp a b > 0 \<and> cmp b c > 0 \<longrightarrow> cmp a c > 0)) xs) xs) xs"

text \<open>
  One engine's sort, for the examples: what V8 does with an array of fewer than 64
  elements. It takes the run at the start of the array (reversed when it is strictly
  descending) and puts every later element into the sorted part by binary search.
\<close>

fun run_more :: "('a \<Rightarrow> 'a \<Rightarrow> int) \<Rightarrow> bool \<Rightarrow> 'a \<Rightarrow> 'a list \<Rightarrow> nat" where
  "run_more cmp desc prev [] = 0"
| "run_more cmp desc prev (c # cs) =
     (let order = cmp c prev
      in if (if desc then order \<ge> 0 else order < 0) then 0
         else Suc (run_more cmp desc c cs))"

definition countAndMakeRun :: "('a \<Rightarrow> 'a \<Rightarrow> int) \<Rightarrow> 'a list \<Rightarrow> 'a list \<times> nat" where
  "countAndMakeRun cmp xs =
     (case xs of
        [] \<Rightarrow> ([], 0)
      | x0 # ys \<Rightarrow>
          (case ys of
             [] \<Rightarrow> ([x0], 1)
           | x1 # rest \<Rightarrow>
               (let desc = cmp x1 x0 < 0;
                    n = 2 + run_more cmp desc x1 rest
                in ((if desc then rev (take n xs) else take n xs) @ drop n xs, n))))"

function binarySearch :: "('a \<Rightarrow> 'a \<Rightarrow> int) \<Rightarrow> 'a \<Rightarrow> 'a list \<Rightarrow> nat \<Rightarrow> nat \<Rightarrow> nat" where
  "binarySearch cmp pivot arr left right =
     (if left < right then
        (let mid = left + (right - left) div 2
         in if cmp pivot (arr ! mid) < 0 then binarySearch cmp pivot arr left mid
            else binarySearch cmp pivot arr (mid + 1) right)
      else left)"
  by pat_completeness auto
termination
  by (relation "measure (\<lambda>(cmp, pivot, arr, left, right). right - left)") auto

declare binarySearch.simps [simp del]

definition binaryInsert :: "('a \<Rightarrow> 'a \<Rightarrow> int) \<Rightarrow> 'a list \<Rightarrow> nat \<Rightarrow> 'a list" where
  "binaryInsert cmp arr start =
     (let pivot = arr ! start;
          left = binarySearch cmp pivot arr 0 start
      in take left arr @ pivot # drop left (take start arr) @ drop (Suc start) arr)"

fun binaryInsertionSort :: "('a \<Rightarrow> 'a \<Rightarrow> int) \<Rightarrow> 'a list \<Rightarrow> nat \<Rightarrow> nat \<Rightarrow> 'a list" where
  "binaryInsertionSort cmp arr start 0 = arr"
| "binaryInsertionSort cmp arr start (Suc todo) =
     binaryInsertionSort cmp (binaryInsert cmp arr start) (Suc start) todo"

definition v8_sort :: "('a \<Rightarrow> 'a \<Rightarrow> int) \<Rightarrow> 'a list \<Rightarrow> 'a list" where
  "v8_sort cmp xs =
     (if length xs < 2 then xs
      else (let r = countAndMakeRun cmp xs
            in binaryInsertionSort cmp (fst r) (snd r) (length xs - snd r)))"

text \<open>
  The parts of the browser that the source calls and that are not written out here are
  parameters of the model: \<^verbatim>\<open>String.prototype.toLowerCase\<close> (the Unicode case table),
  what the URL parser does after it has read the scheme, \<^verbatim>\<open>new Date(string)\<close>,
  whose reading of a string that is not in the ISO format is left to the browser
  (\<open>None\<close> stands for an invalid date, whose time value is NaN), and the order in which
  the engine's sort leaves an array when the comparator is not consistent.
\<close>

record browser =
  toLowerCase :: "jstring \<Rightarrow> jstring"
  urlRestParses :: "jstring \<Rightarrow> bool"
  dateParse :: "jstring \<Rightarrow> int option"
  arraySort :: "(bookmark \<Rightarrow> bookmark \<Rightarrow> int) \<Rightarrow> bookmark list \<Rightarrow> bookmark list"

text \<open>\<^verbatim>\<open>xs.sort(comparefn)\<close> in a browser: the stable sort for a consistent comparator,
  and otherwise the engine's order, which is a rearrangement of the array whatever the
  comparator does.\<close>

definition Array_sort ::
  "browser \<Rightarrow> (bookmark \<Rightarrow> bookmark \<Rightarrow> int option) \<Rightarrow> bookmark list \<Rightarrow> bookmark list" where
  "Array_sort B comparefn xs =
     (let cmp = SortCompare comparefn
      in if neverNaN comparefn xs \<and> consistent cmp xs then js_sort cmp xs
         else (let ys = arraySort B cmp xs in if mset ys = mset xs then ys else xs))"

definition asciiLower :: "nat \<Rightarrow> nat" where
  "asciiLower c = (if 65 \<le> c \<and> c \<le> 90 then c + 32 else c)"

text \<open>A browser for ASCII inputs: ASCII case folding, every URL rest accepted, the date of
  a string read as the number its decimal digits spell (enough to order the
  \<^verbatim>\<open>YYYY-MM-DD HH:MM\<close> stamps of this program; a string without a digit is no date),
  and the sort of V8.\<close>

definition isDigit :: "nat \<Rightarrow> bool" where
  "isDigit c \<longleftrightarrow> 48 \<le> c \<and> c \<le> 57"

definition digitsValue :: "jstring \<Rightarrow> int option" where
  "digitsValue s =
     (if filter isDigit s = [] then None
      else Some (foldl (\<lambda>acc c. acc * 10 + (int c - 48)) 0 (filter isDigit s)))"

definition asciiBrowser :: browser where
  "asciiBrowser =
     \<lparr>toLowerCase = map asciiLower, urlRestParses = (\<lambda>u. True), dateParse = digitsValue,
      arraySort = v8_sort\<rparr>"

text \<open>\<^verbatim>\<open>\s\<close> in a regular expression and the characters \<^verbatim>\<open>trim\<close> strips are the same
  set: WhiteSpace and LineTerminator of ECMAScript.\<close>

definition isWhiteSpace :: "nat \<Rightarrow> bool" where
  "isWhiteSpace c \<longleftrightarrow>
     c = 9 \<or> c = 10 \<or> c = 11 \<or> c = 12 \<or> c = 13 \<or> c = 32 \<or> c = 160 \<or> c = 5760 \<or>
     (8192 \<le> c \<and> c \<le> 8202) \<or> c = 8232 \<or> c = 8233 \<or> c = 8239 \<or> c = 8287 \<or>
     c = 12288 \<or> c = 65279"

definition trim :: "jstring \<Rightarrow> jstring" where
  "trim s = rev (dropWhile isWhiteSpace (rev (dropWhile isWhiteSpace s)))"

text \<open>\<^verbatim>\<open>s.split(',')\<close>: every separator character ends a piece.\<close>

fun split_char :: "nat \<Rightarrow> jstring \<Rightarrow> jstring list" where
  "split_char sep [] = [[]]"
| "split_char sep (c # cs) =
     (if c = sep then [] # split_char sep cs
      else (case split_char sep cs of
              [] \<Rightarrow> [[c]]
            | t # ts \<Rightarrow> (c # t) # ts))"

text \<open>\<^verbatim>\<open>s.split(/[...]+/)\<close>: the pieces between the maximal runs of characters of
  the class. A run at the start or at the end leaves an empty piece there.\<close>

function split_re :: "(nat \<Rightarrow> bool) \<Rightarrow> jstring \<Rightarrow> jstring list" where
  "split_re sep s =
     (let tok = takeWhile (\<lambda>c. \<not> sep c) s;
          rest = dropWhile (\<lambda>c. \<not> sep c) s
      in if rest = [] then [tok] else tok # split_re sep (dropWhile sep rest))"
  by pat_completeness auto
termination
proof (relation "measure (\<lambda>(sep, s). length s)")
  show "wf (measure (\<lambda>(sep, s). length s))"
    by simp
next
  fix sep :: "nat \<Rightarrow> bool" and s tok rest :: jstring
  assume r: "rest = dropWhile (\<lambda>c. \<not> sep c) s" and ne: "rest \<noteq> []"
  from ne obtain x xs where rx: "rest = x # xs"
    by (cases rest) auto
  have "length (dropWhile sep rest) \<le> length rest"
    by (rule length_dropWhile_le)
  moreover have "sep x"
    using r rx dropWhile_eq_Cons_conv [of "\<lambda>c. \<not> sep c" s x xs] by simp
  then have "length (dropWhile sep rest) < length rest"
    using rx length_dropWhile_le [of sep xs] by simp
  moreover have "length rest \<le> length s"
    unfolding r by (rule length_dropWhile_le)
  ultimately show "((sep, dropWhile sep rest), (sep, s)) \<in> measure (\<lambda>(sep, s). length s)"
    by simp
qed

declare split_re.simps [simp del]

text \<open>\<^verbatim>\<open>s.includes(sub)\<close>, tried at every position from the left.\<close>

fun str_includes :: "jstring \<Rightarrow> jstring \<Rightarrow> bool" where
  "str_includes [] sub = (sub = [])"
| "str_includes (c # cs) sub = (prefix sub (c # cs) \<or> str_includes cs sub)"

text \<open>\<^verbatim>\<open>xs.join(sep)\<close>.\<close>

fun join :: "jstring \<Rightarrow> jstring list \<Rightarrow> jstring" where
  "join sep [] = []"
| "join sep [t] = t"
| "join sep (t # u # ts) = t @ sep @ join sep (u # ts)"

text \<open>\<^verbatim>\<open>String(n)\<close> for an integer, and \<^verbatim>\<open>padStart(2, '0')\<close>.\<close>

fun digits :: "nat \<Rightarrow> jstring" where
  "digits n = (if n < 10 then [48 + n] else digits (n div 10) @ [48 + n mod 10])"

declare digits.simps [simp del]

definition String_of :: "int \<Rightarrow> jstring" where
  "String_of i = (if i < 0 then 45 # digits (nat (- i)) else digits (nat i))"

definition padStart2 :: "jstring \<Rightarrow> jstring" where
  "padStart2 s = replicate (2 - length s) 48 @ s"

text \<open>\<^verbatim>\<open>xs.slice(start, end)\<close>, with the negative indices counted from the end.\<close>

definition js_slice :: "int \<Rightarrow> int \<Rightarrow> 'a list \<Rightarrow> 'a list" where
  "js_slice start fin xs =
     (let len = int (length xs);
          k = (if start < 0 then max (len + start) 0 else min start len);
          final = (if fin < 0 then max (len + fin) 0 else min fin len)
      in take (nat (final - k)) (drop (nat k) xs))"

text \<open>\<^verbatim>\<open>Math.ceil(n / p)\<close> for a length \<open>n\<close> and a positive page size \<open>p\<close>.\<close>

definition ceil_div :: "nat \<Rightarrow> nat \<Rightarrow> int" where
  "ceil_div n p = int ((n + p - 1) div p)"

text \<open>
  \<^verbatim>\<open>new URL(url)\<close> with no base: the parser strips leading and trailing C0 controls and
  spaces, removes tabs and newlines, and then needs a scheme, an ASCII letter followed by
  letters, digits, \<^verbatim>\<open>+\<close>, \<^verbatim>\<open>-\<close> or \<^verbatim>\<open>.\<close> up to a colon; without one it fails and the
  constructor throws. What it does with the rest is the browser's \<open>urlRestParses\<close>.
  The result is the \<^verbatim>\<open>protocol\<close> of the URL, the lower-cased scheme and the colon.
\<close>

definition isAsciiAlpha :: "nat \<Rightarrow> bool" where
  "isAsciiAlpha c \<longleftrightarrow> (65 \<le> c \<and> c \<le> 90) \<or> (97 \<le> c \<and> c \<le> 122)"

definition isSchemeChar :: "nat \<Rightarrow> bool" where
  "isSchemeChar c \<longleftrightarrow> isAsciiAlpha c \<or> isDigit c \<or> c = 43 \<or> c = 45 \<or> c = 46"

definition url_scheme :: "jstring \<Rightarrow> jstring option" where
  "url_scheme input =
     (let stripped = rev (dropWhile (\<lambda>c. c \<le> 32) (rev (dropWhile (\<lambda>c. c \<le> 32) input)));
          s = filter (\<lambda>c. c \<noteq> 9 \<and> c \<noteq> 10 \<and> c \<noteq> 13) stripped
      in case s of
           [] \<Rightarrow> None
         | c # cs \<Rightarrow>
             if isAsciiAlpha c then
               (case dropWhile isSchemeChar cs of
                  [] \<Rightarrow> None
                | d # r \<Rightarrow> if d = 58 then Some (map asciiLower (c # takeWhile isSchemeChar cs))
                           else None)
             else None)"

definition new_URL :: "browser \<Rightarrow> jstring \<Rightarrow> jstring option" where
  "new_URL B u =
     (case url_scheme u of
        None \<Rightarrow> None
      | Some scheme \<Rightarrow> if urlRestParses B u then Some (scheme @ [58]) else None)"

section \<open>The IndexedDB object store\<close>

text \<open>
  Both implementations keep their records in one object store created with
  \<^verbatim>\<open>{ keyPath: 'id', autoIncrement: true }\<close>. The store holds its records in
  ascending key order (the order \<^verbatim>\<open>getAll\<close> returns) and a key generator that starts
  at 1.
\<close>

record objectStore =
  keyGen :: nat
  records :: "bookmark list"

definition emptyStore :: objectStore where
  "emptyStore = \<lparr>keyGen = 1, records = []\<rparr>"

text \<open>The invariant of a store that only this program has written.\<close>

definition store_ok :: "objectStore \<Rightarrow> bool" where
  "store_ok s \<longleftrightarrow>
     sorted_wrt (<) (map b_id (records s)) \<and> list_all (\<lambda>b. b_id b < keyGen s) (records s)"

text \<open>\<^verbatim>\<open>objectStore.add(value)\<close> for a value without \<^verbatim>\<open>id\<close>: the key generator gives the
  key, which is stored in the record and returned.\<close>

definition os_add :: "bookmark \<Rightarrow> objectStore \<Rightarrow> nat \<times> objectStore" where
  "os_add v s =
     (let k = keyGen s
      in (k, s\<lparr>keyGen := k + 1, records := records s @ [v\<lparr>b_id := k\<rparr>]\<rparr>))"

definition os_get :: "nat \<Rightarrow> objectStore \<Rightarrow> bookmark option" where
  "os_get k s = find (\<lambda>b. b_id b = k) (records s)"

fun insert_by_key :: "bookmark \<Rightarrow> bookmark list \<Rightarrow> bookmark list" where
  "insert_by_key v [] = [v]"
| "insert_by_key v (b # bs) =
     (if b_id v < b_id b then v # b # bs else b # insert_by_key v bs)"

text \<open>\<^verbatim>\<open>objectStore.put(value)\<close> for a value that has its \<^verbatim>\<open>id\<close>: the record under that
  key is replaced, or the value is inserted when there is none.\<close>

definition os_put :: "bookmark \<Rightarrow> objectStore \<Rightarrow> nat \<times> objectStore" where
  "os_put v s =
     (if list_ex (\<lambda>b. b_id b = b_id v) (records s)
      then (b_id v, s\<lparr>records := map (\<lambda>b. if b_id b = b_id v then v else b) (records s)\<rparr>)
      else (b_id v, s\<lparr>keyGen := max (keyGen s) (b_id v + 1),
                       records := insert_by_key v (records s)\<rparr>))"

text \<open>\<^verbatim>\<open>objectStore.delete(key)\<close> succeeds whether or not the key is there.\<close>

definition os_delete :: "nat \<Rightarrow> objectStore \<Rightarrow> objectStore" where
  "os_delete k s = s\<lparr>records := filter (\<lambda>b. b_id b \<noteq> k) (records s)\<rparr>"

definition os_getAll :: "objectStore \<Rightarrow> bookmark list" where
  "os_getAll s = records s"

text \<open>What a failed operation reports: the form handlers refuse an input, or an update
  finds no record.\<close>

datatype error = ValidationError | NotFound

text \<open>The object passed to \<^verbatim>\<open>add\<close> and \<^verbatim>\<open>update\<close>: \<^verbatim>\<open>name\<close>, \<^verbatim>\<open>url\<close>, and the
  properties \<^verbatim>\<open>tags\<close> and \<^verbatim>\<open>createdAt\<close>, which may be absent.\<close>

record draft =
  d_name :: jstring
  d_url :: jstring
  d_tags :: "jstring list option"
  d_createdAt :: "jstring option"

text \<open>A \<^verbatim>\<open>Date\<close>, by the getters the program reads (\<^verbatim>\<open>getMonth\<close> counts from 0).\<close>

record date =
  getFullYear :: int
  getMonth :: nat
  getDate :: nat
  getHours :: nat
  getMinutes :: nat

section \<open>The implementation of script.js: BookmarkDB and BookmarkApp\<close>

text \<open>\<^verbatim>\<open>BookmarkDB.add\<close>: the date is formatted in place, \<^verbatim>\<open>tags\<close> defaults to the empty
  array, and the store assigns the key.\<close>

definition formattedDate :: "date \<Rightarrow> jstring" where
  "formattedDate now =
     (let year = String_of (getFullYear now);
          month = padStart2 (String_of (int (getMonth now + 1)));
          day = padStart2 (String_of (int (getDate now)));
          hours = padStart2 (String_of (int (getHours now)));
          minutes = padStart2 (String_of (int (getMinutes now)))
      in year @ js ''-'' @ month @ js ''-'' @ day @ js '' '' @ hours @ js '':'' @ minutes)"

definition BookmarkDB_add :: "date \<Rightarrow> draft \<Rightarrow> objectStore \<Rightarrow> (error + nat) \<times> objectStore" where
  "BookmarkDB_add now bookmark s =
     (let bookmarkData =
            \<lparr>b_id = 0, b_name = d_name bookmark, b_url = d_url bookmark,
             b_tags = (case d_tags bookmark of None \<Rightarrow> [] | Some ts \<Rightarrow> ts),
             b_createdAt = formattedDate now\<rparr>;
          r = os_add bookmarkData s
      in (Inr (fst r), snd r))"

text \<open>\<^verbatim>\<open>BookmarkDB.update\<close> reads the record, assigns \<^verbatim>\<open>name\<close>, \<^verbatim>\<open>url\<close> and \<^verbatim>\<open>tags\<close>,
  and writes it back; a \<^verbatim>\<open>createdAt\<close> of the argument is never read.\<close>

definition BookmarkDB_update :: "nat \<Rightarrow> draft \<Rightarrow> objectStore \<Rightarrow> (error + nat) \<times> objectStore" where
  "BookmarkDB_update k bookmark s =
     (case os_get k s of
        None \<Rightarrow> (Inl NotFound, s)
      | Some data \<Rightarrow>
          (let r = os_put (data\<lparr>b_name := d_name bookmark, b_url := d_url bookmark,
                                b_tags := (case d_tags bookmark of None \<Rightarrow> [] | Some ts \<Rightarrow> ts)\<rparr>) s
           in (Inr (fst r), snd r)))"

definition BookmarkDB_delete :: "nat \<Rightarrow> objectStore \<Rightarrow> (error + unit) \<times> objectStore" where
  "BookmarkDB_delete k s = (Inr (), os_delete k s)"

definition BookmarkDB_getAll :: "objectStore \<Rightarrow> bookmark list" where
  "BookmarkDB_getAll s = os_getAll s"

definition BookmarkDB_get :: "nat \<Rightarrow> objectStore \<Rightarrow> bookmark option" where
  "BookmarkDB_get k s = os_get k s"

definition BookmarkDB_search :: "browser \<Rightarrow> jstring \<Rightarrow> objectStore \<Rightarrow> bookmark list" where
  "BookmarkDB_search B query s =
     (let allBookmarks = BookmarkDB_getAll s;
          searchTerm = trim (toLowerCase B query)
      in if searchTerm = [] then allBookmarks
         else filter (\<lambda>bookmark.
                let nameMatch = str_includes (toLowerCase B (b_name bookmark)) searchTerm;
                    urlMatch = str_includes (toLowerCase B (b_url bookmark)) searchTerm;
                    tagsMatch = list_ex (\<lambda>tag. str_includes (toLowerCase B tag) searchTerm)
                                  (b_tags bookmark)
                in nameMatch \<or> urlMatch \<or> tagsMatch) allBookmarks)"

text \<open>The tag parsing of \<^verbatim>\<open>handleFormSubmit\<close>: the split on
  \<^verbatim>\<open>/[,;\uFF0C\uFF1B\s]+/\<close>, and the loop that keeps the first tag of every lower-case
  form.\<close>

definition isTagSeparator :: "nat \<Rightarrow> bool" where
  "isTagSeparator c \<longleftrightarrow> c = 44 \<or> c = 59 \<or> c = 65292 \<or> c = 65307 \<or> isWhiteSpace c"

fun uniqueTags_loop ::
  "(jstring \<Rightarrow> jstring) \<Rightarrow> jstring list \<Rightarrow> jstring set \<Rightarrow> jstring list \<Rightarrow> jstring list" where
  "uniqueTags_loop lc [] lowerCaseTags uniqueTags = uniqueTags"
| "uniqueTags_loop lc (tag # rest) lowerCaseTags uniqueTags =
     (let lowerTag = lc tag
      in if lowerTag \<notin> lowerCaseTags
         then uniqueTags_loop lc rest (insert lowerTag lowerCaseTags) (uniqueTags @ [tag])
         else uniqueTags_loop lc rest lowerCaseTags uniqueTags)"

definition handleFormSubmit_tags :: "browser \<Rightarrow> jstring \<Rightarrow> jstring list" where
  "handleFormSubmit_tags B tagsInput =
     (if tagsInput \<noteq> [] then
        (let tags = filter (\<lambda>tag. length tag > 0) (map trim (split_re isTagSeparator tagsInput))
         in uniqueTags_loop (toLowerCase B) tags {} [])
      else [])"

record bookmarkApp =
  app_db :: objectStore
  currentPage :: int
  itemsPerPage :: nat
  allBookmarks :: "bookmark list"
  filteredBookmarks :: "bookmark list"
  currentEditId :: "nat option"

definition newBookmarkApp :: bookmarkApp where
  "newBookmarkApp =
     \<lparr>app_db = emptyStore, currentPage = 1, itemsPerPage = 12, allBookmarks = [],
      filteredBookmarks = [], currentEditId = None\<rparr>"

text \<open>The comparator \<^verbatim>\<open>(a, b) => new Date(b.createdAt) - new Date(a.createdAt)\<close>.\<close>

definition newestFirst :: "browser \<Rightarrow> bookmark \<Rightarrow> bookmark \<Rightarrow> int option" where
  "newestFirst B a b = num_sub (dateParse B (b_createdAt b)) (dateParse B (b_createdAt a))"

definition loadBookmarks :: "browser \<Rightarrow> jstring \<Rightarrow> bookmarkApp \<Rightarrow> bookmarkApp" where
  "loadBookmarks B searchQuery app =
     (let app1 = (if searchQuery \<noteq> []
                  then app\<lparr>filteredBookmarks := BookmarkDB_search B searchQuery (app_db app)\<rparr>
                  else app\<lparr>allBookmarks := BookmarkDB_getAll (app_db app),
                           filteredBookmarks := BookmarkDB_getAll (app_db app)\<rparr>)
      in app1\<lparr>filteredBookmarks := Array_sort B (newestFirst B) (filteredBookmarks app1),
              currentPage := 1\<rparr>)"

text \<open>\<^verbatim>\<open>renderBookmarks\<close> shows the slice of the current page.\<close>

definition pageBookmarks :: "bookmarkApp \<Rightarrow> bookmark list" where
  "pageBookmarks app =
     (let startIndex = (currentPage app - 1) * int (itemsPerPage app);
          endIndex = startIndex + int (itemsPerPage app)
      in js_slice startIndex endIndex (filteredBookmarks app))"

definition totalPages :: "bookmarkApp \<Rightarrow> int" where
  "totalPages app = ceil_div (length (filteredBookmarks app)) (itemsPerPage app)"

definition goToPage :: "int \<Rightarrow> bookmarkApp \<Rightarrow> bookmarkApp" where
  "goToPage page app =
     (if page < 1 \<or> page > totalPages app then app else app\<lparr>currentPage := page\<rparr>)"

text \<open>\<^verbatim>\<open>handleFormSubmit\<close>, from the values of the three form fields and of the search
  field. A refused input shows a toast and returns before the store is touched; a failed
  save shows a toast and does not reload.\<close>

definition handleFormSubmit ::
  "browser \<Rightarrow> date \<Rightarrow> jstring \<Rightarrow> jstring \<Rightarrow> jstring \<Rightarrow> jstring \<Rightarrow> bookmarkApp
     \<Rightarrow> (error + unit) \<times> bookmarkApp" where
  "handleFormSubmit B now nameValue urlValue tagsValue searchValue app =
     (let name = trim nameValue; url = trim urlValue; tagsInput = trim tagsValue
      in if name = [] \<or> url = [] then (Inl ValidationError, app)
         else if new_URL B url = None then (Inl ValidationError, app)
         else
           (let bookmark = \<lparr>d_name = name, d_url = url,
                             d_tags = Some (handleFormSubmit_tags B tagsInput),
                             d_createdAt = None\<rparr>;
                saved = (case currentEditId app of
                           None \<Rightarrow> BookmarkDB_add now bookmark (app_db app)
                         | Some k \<Rightarrow>
                             if k = 0 then BookmarkDB_add now bookmark (app_db app)
                             else BookmarkDB_update k bookmark (app_db app))
            in case fst saved of
                 Inl e \<Rightarrow> (Inl e, app\<lparr>app_db := snd saved\<rparr>)
               | Inr r \<Rightarrow>
                   (Inr (), loadBookmarks B searchValue
                              (app\<lparr>app_db := snd saved, currentEditId := None\<rparr>))))"




section \<open>The second implementation (the source file without a name)\<close>

definition PAGE_SIZE :: nat where
  "PAGE_SIZE = 12"

record state =
  st_db :: objectStore
  st_items :: "bookmark list"
  st_total :: nat
  st_page :: int
  st_keyword :: jstring

definition fmtDate :: "date \<Rightarrow> jstring" where
  "fmtDate d =
     (let year = String_of (getFullYear d);
          month = padStart2 (String_of (int (getMonth d + 1)));
          day = padStart2 (String_of (int (getDate d)));
          hh = padStart2 (String_of (int (getHours d)));
          mm = padStart2 (String_of (int (getMinutes d)))
      in year @ js ''-'' @ month @ js ''-'' @ day @ js '' '' @ hh @ js '':'' @ mm)"

definition isValidUrl :: "browser \<Rightarrow> jstring \<Rightarrow> bool" where
  "isValidUrl B url =
     (case new_URL B url of
        None \<Rightarrow> False
      | Some protocol \<Rightarrow> protocol = js ''http:'' \<or> protocol = js ''https:'')"

definition parseTags :: "jstring \<Rightarrow> jstring list" where
  "parseTags input =
     (if input = [] then []
      else take 12 (filter (\<lambda>s. s \<noteq> []) (map trim (split_char 44 input))))"

definition addBookmark :: "bookmark \<Rightarrow> objectStore \<Rightarrow> (error + nat) \<times> objectStore" where
  "addBookmark data s = (let r = os_add data s in (Inr (fst r), snd r))"

text \<open>\<^verbatim>\<open>updateBookmark\<close> writes \<^verbatim>\<open>{ ...val, ...data, id }\<close>: every property the
  argument has replaces the stored one.\<close>

definition updateBookmark :: "nat \<Rightarrow> draft \<Rightarrow> objectStore \<Rightarrow> (error + bool) \<times> objectStore" where
  "updateBookmark k data s =
     (case os_get k s of
        None \<Rightarrow> (Inl NotFound, s)
      | Some v \<Rightarrow>
          (let next = v\<lparr>b_name := d_name data, b_url := d_url data,
                        b_tags := (case d_tags data of None \<Rightarrow> b_tags v | Some ts \<Rightarrow> ts),
                        b_createdAt := (case d_createdAt data of
                                          None \<Rightarrow> b_createdAt v | Some c \<Rightarrow> c),
                        b_id := k\<rparr>
           in (Inr True, snd (os_put next s))))"

definition deleteBookmark :: "nat \<Rightarrow> objectStore \<Rightarrow> (error + bool) \<times> objectStore" where
  "deleteBookmark k s = (Inr True, os_delete k s)"

definition getAllBookmarks :: "objectStore \<Rightarrow> bookmark list" where
  "getAllBookmarks s = os_getAll s"

definition matchesKeyword :: "browser \<Rightarrow> bookmark \<Rightarrow> jstring \<Rightarrow> bool" where
  "matchesKeyword B item kw =
     (if kw = [] then True
      else (let s = toLowerCase B kw;
                name = toLowerCase B (b_name item);
                url = toLowerCase B (b_url item);
                tags = toLowerCase B (join [44] (b_tags item))
            in str_includes name s \<or> str_includes url s \<or> str_includes tags s))"

text \<open>\<^verbatim>\<open>renderList\<close>: the page count is at least 1, a page beyond it becomes the last
  page, and the slice of the page is shown.\<close>

definition renderList :: "state \<Rightarrow> state \<times> bookmark list" where
  "renderList st =
     (let its = st_items st;
          total = length its;
          pages = max 1 (ceil_div total PAGE_SIZE);
          pg = (if st_page st > pages then pages else st_page st);
          start = (pg - 1) * int PAGE_SIZE
      in (st\<lparr>st_total := total, st_page := pg\<rparr>, js_slice start (start + int PAGE_SIZE) its))"

definition onPageClick :: "int \<Rightarrow> state \<Rightarrow> state \<times> bookmark list" where
  "onPageClick p st = renderList (st\<lparr>st_page := p\<rparr>)"

text \<open>The comparator of \<^verbatim>\<open>refreshList\<close> reads a missing or empty \<^verbatim>\<open>createdAt\<close> as
  \<^verbatim>\<open>new Date(0)\<close>.\<close>

definition getTime :: "browser \<Rightarrow> jstring \<Rightarrow> int option" where
  "getTime B c = (if c = [] then Some 0 else dateParse B c)"

definition createdAtDesc :: "browser \<Rightarrow> bookmark \<Rightarrow> bookmark \<Rightarrow> int option" where
  "createdAtDesc B a b =
     (let da = getTime B (b_createdAt a); db = getTime B (b_createdAt b)
      in num_sub db da)"

definition refreshList :: "browser \<Rightarrow> state \<Rightarrow> state \<times> bookmark list" where
  "refreshList B st =
     (let all = getAllBookmarks (st_db st);
          filtered = (if st_keyword st \<noteq> []
                      then filter (\<lambda>x. matchesKeyword B x (st_keyword st)) all else all)
      in renderList (st\<lparr>st_items := Array_sort B (createdAtDesc B) filtered\<rparr>))"

definition onSearch :: "browser \<Rightarrow> jstring \<Rightarrow> state \<Rightarrow> state \<times> bookmark list" where
  "onSearch B searchInput st = refreshList B (st\<lparr>st_keyword := trim searchInput, st_page := 1\<rparr>)"

datatype form_mode = ModeAdd | ModeEdit

text \<open>\<^verbatim>\<open>onFormSubmit\<close>, from the mode of the form and the values of its fields. An
  invalid URL or an empty name is reported on the field and nothing is written.\<close>

definition onFormSubmit ::
  "browser \<Rightarrow> date \<Rightarrow> form_mode \<Rightarrow> nat \<Rightarrow> jstring \<Rightarrow> jstring \<Rightarrow> jstring \<Rightarrow> jstring \<Rightarrow> state
     \<Rightarrow> (error + unit) \<times> state" where
  "onFormSubmit B now mode f_id f_url f_name f_tags f_createdAt st =
     (let url = trim f_url; name = trim f_name; tags = parseTags f_tags;
          createdAt = trim f_createdAt
      in if \<not> isValidUrl B url then (Inl ValidationError, st)
         else if name = [] then (Inl ValidationError, st)
         else
           (case mode of
              ModeAdd \<Rightarrow>
                (let item = \<lparr>b_id = 0, b_name = name, b_url = url, b_tags = tags,
                             b_createdAt = fmtDate now\<rparr>;
                     r = addBookmark item (st_db st)
                 in (Inr (), fst (refreshList B (st\<lparr>st_db := snd r\<rparr>))))
            | ModeEdit \<Rightarrow>
                (let data = \<lparr>d_name = name, d_url = url, d_tags = Some tags,
                             d_createdAt = (if createdAt \<noteq> [] then Some createdAt else None)\<rparr>;
                     r = updateBookmark f_id data (st_db st)
                 in case fst r of
                      Inl e \<Rightarrow> (Inl e, st)
                    | Inr ok \<Rightarrow> (Inr (), fst (refreshList B (st\<lparr>st_db := snd r\<rparr>))))))"


section \<open>The format of a creation stamp\<close>

text \<open>\<^verbatim>\<open>YYYY-MM-DD HH:MM\<close>: sixteen characters, digits but for the two hyphens, the space
  and the colon.\<close>

definition matchesStampFormat :: "jstring \<Rightarrow> bool" where
  "matchesStampFormat s \<longleftrightarrow>
     length s = 16 \<and>
     list_all (\<lambda>i. isDigit (s ! i)) [0, 1, 2, 3, 5, 6, 8, 9, 11, 12, 14, 15] \<and>
     s ! 4 = 45 \<and> s ! 7 = 45 \<and> s ! 10 = 32 \<and> s ! 13 = 58"

text \<open>The stamp of a time: the decimal digits of the year, the number of the month, the
  day, the hour and the minute, with the hyphens, the space and the colon between them.\<close>

definition stampOf :: "int \<Rightarrow> nat \<Rightarrow> nat \<Rightarrow> nat \<Rightarrow> nat \<Rightarrow> jstring" where
  "stampOf y mo d h mi =
     [48 + nat y div 1000, 48 + nat y div 100 mod 10, 48 + nat y div 10 mod 10, 48 + nat y mod 10,
      45, 48 + mo div 10, 48 + mo mod 10,
      45, 48 + d div 10, 48 + d mod 10,
      32, 48 + h div 10, 48 + h mod 10,
      58, 48 + mi div 10, 48 + mi mod 10]"

text \<open>The values the getters of a \<^verbatim>\<open>Date\<close> return, for a year of four digits.\<close>

definition clock_ok :: "date \<Rightarrow> bool" where
  "clock_ok d \<longleftrightarrow>
     1000 \<le> getFullYear d \<and> getFullYear d \<le> 9999 \<and> getMonth d < 12 \<and>
     1 \<le> getDate d \<and> getDate d \<le> 31 \<and> getHours d < 24 \<and> getMinutes d < 60"

section \<open>Reference functions for the statements\<close>

text \<open>Removing duplicates under a key: the first element of every key is kept, in the
  order of the list.\<close>

function firstSeen :: "('a \<Rightarrow> 'b) \<Rightarrow> 'a list \<Rightarrow> 'a list" where
  "firstSeen f [] = []"
| "firstSeen f (x # xs) = x # firstSeen f (filter (\<lambda>y. f y \<noteq> f x) xs)"
  by pat_completeness auto
termination
  by (relation "measure (\<lambda>(f, xs). length xs)") (auto simp: less_Suc_eq_le)

text \<open>The non-empty maximal blocks of characters that are not separators, in the order of
  the string.\<close>

function blocks :: "(nat \<Rightarrow> bool) \<Rightarrow> jstring \<Rightarrow> jstring list" where
  "blocks sep [] = []"
| "blocks sep (c # cs) =
     (if sep c then blocks sep cs
      else (c # takeWhile (\<lambda>d. \<not> sep d) cs) # blocks sep (dropWhile (\<lambda>d. \<not> sep d) cs))"
  by pat_completeness auto
termination
  by (relation "measure (\<lambda>(sep, s). length s)") (auto simp: less_Suc_eq_le length_dropWhile_le)

text \<open>The time value the comparators read from a record, with NaN counted as 0: of
  script.js, and of the second implementation.\<close>

definition timeOf :: "browser \<Rightarrow> bookmark \<Rightarrow> int" where
  "timeOf B r = nan_as_zero (dateParse B (b_createdAt r))"

definition timeOrZero :: "browser \<Rightarrow> bookmark \<Rightarrow> int" where
  "timeOrZero B r = nan_as_zero (getTime B (b_createdAt r))"


section \<open>Example values\<close>

text \<open>A store with one record, as the program leaves it after one creation.\<close>

definition oneStore :: objectStore where
  "oneStore =
     \<lparr>keyGen = 2,
      records = [\<lparr>b_id = 1, b_name = js ''Alpha'', b_url = js ''https://a.example/'',
                  b_tags = [js ''dev''], b_createdAt = js ''2024-01-01 10:00''\<rparr>]\<rparr>"


text \<open>A time, a draft, and the second implementation before its first record.\<close>

definition exampleNow :: date where
  "exampleNow = \<lparr>getFullYear = 2026, getMonth = 10, getDate = 2, getHours = 9, getMinutes = 5\<rparr>"

definition exampleDraft :: draft where
  "exampleDraft =
     \<lparr>d_name = js ''Alpha'', d_url = js ''https://a.example/'', d_tags = Some [js ''dev''],
      d_createdAt = None\<rparr>"

definition emptyState :: state where
  "emptyState = \<lparr>st_db = emptyStore, st_items = [], st_total = 0, st_page = 1, st_keyword = []\<rparr>"


text \<open>The record of that store, a patch that carries a \<^verbatim>\<open>createdAt\<close>, and the second
  implementation over that store.\<close>

definition alphaRecord :: bookmark where
  "alphaRecord =
     \<lparr>b_id = 1, b_name = js ''Alpha'', b_url = js ''https://a.example/'',
      b_tags = [js ''dev''], b_createdAt = js ''2024-01-01 10:00''\<rparr>"

definition examplePatch :: draft where
  "examplePatch =
     \<lparr>d_name = js ''Beta'', d_url = js ''https://b.example/'', d_tags = Some [js ''tools''],
      d_createdAt = Some (js ''2030-01-01 00:00'')\<rparr>"

definition oneState :: state where
  "oneState = \<lparr>st_db = oneStore, st_items = [], st_total = 0, st_page = 1, st_keyword = []\<rparr>"


text \<open>Scenario A: three records created one minute after the other.\<close>

definition betaRecord :: bookmark where
  "betaRecord =
     \<lparr>b_id = 2, b_name = js ''Beta'', b_url = js ''https://b.example/'',
      b_tags = [js ''dev'', js ''tools''], b_createdAt = js ''2024-01-01 10:01''\<rparr>"

definition gammaRecord :: bookmark where
  "gammaRecord =
     \<lparr>b_id = 3, b_name = js ''Gamma'', b_url = js ''https://c.example/'',
      b_tags = [], b_createdAt = js ''2024-01-01 10:02''\<rparr>"

definition threeStore :: objectStore where
  "threeStore = \<lparr>keyGen = 4, records = [alphaRecord, betaRecord, gammaRecord]\<rparr>"

definition threeState :: state where
  "threeState = \<lparr>st_db = threeStore, st_items = [], st_total = 0, st_page = 1, st_keyword = []\<rparr>"

text \<open>Scenario C: thirteen records, in script.js and in the second implementation.\<close>

definition thirteenRecords :: "bookmark list" where
  "thirteenRecords =
     map (\<lambda>i. \<lparr>b_id = i, b_name = js ''site'', b_url = js ''https://a.example/'', b_tags = [],
                b_createdAt = js ''2024-01-01 10:00''\<rparr>) [1..<14]"

definition app13 :: bookmarkApp where
  "app13 = newBookmarkApp\<lparr>filteredBookmarks := thirteenRecords\<rparr>"

definition state13 :: state where
  "state13 = emptyState\<lparr>st_items := thirteenRecords\<rparr>"


text \<open>A record whose tags, joined by a comma, hold a keyword that neither tag holds.\<close>

definition commaRecord :: bookmark where
  "commaRecord =
     \<lparr>b_id = 1, b_name = js ''Site'', b_url = js ''https://s.example/'',
      b_tags = [js ''xa'', js ''by''], b_createdAt = js ''2024-01-01 10:00''\<rparr>"



text \<open>Four records of which the third has a \<^verbatim>\<open>createdAt\<close> that is no date; the times of
  the others are 10:00, 10:05 and 10:02.\<close>

definition fourRecords :: "bookmark list" where
  "fourRecords =
     [alphaRecord,
      betaRecord\<lparr>b_createdAt := js ''2024-01-01 10:05''\<rparr>,
      gammaRecord\<lparr>b_createdAt := js ''garbage''\<rparr>,
      gammaRecord\<lparr>b_id := 4\<rparr>]"

section \<open>Tags\<close>

lemma split_re_unfold:
  "split_re sep s =
     (if dropWhile (\<lambda>c. \<not> sep c) s = [] then [takeWhile (\<lambda>c. \<not> sep c) s]
      else takeWhile (\<lambda>c. \<not> sep c) s # split_re sep (dropWhile sep (dropWhile (\<lambda>c. \<not> sep c) s)))"
  by (subst split_re.simps) (simp add: Let_def)

lemma split_re_last:
  "dropWhile (\<lambda>c. \<not> sep c) s = [] \<Longrightarrow> split_re sep s = [takeWhile (\<lambda>c. \<not> sep c) s]"
  by (subst split_re_unfold) (rule if_P)

lemma split_re_more:
  "dropWhile (\<lambda>c. \<not> sep c) s \<noteq> [] \<Longrightarrow>
   split_re sep s =
     takeWhile (\<lambda>c. \<not> sep c) s # split_re sep (dropWhile sep (dropWhile (\<lambda>c. \<not> sep c) s))"
  by (subst split_re_unfold) (rule if_not_P)

lemma split_re_no_sep: "t \<in> set (split_re sep s) \<Longrightarrow> c \<in> set t \<Longrightarrow> \<not> sep c"
proof (induction sep s rule: split_re.induct)
  case (1 sep s)
  have tok: "t = takeWhile (\<lambda>c. \<not> sep c) s \<Longrightarrow> \<not> sep c"
    using "1.prems" by (auto dest: set_takeWhileD)
  show ?case
  proof (cases "dropWhile (\<lambda>c. \<not> sep c) s = []")
    case True
    with "1.prems" tok show ?thesis
      by (simp add: split_re_last)
  next
    case False
    from "1.prems" have "t = takeWhile (\<lambda>c. \<not> sep c) s \<or>
        t \<in> set (split_re sep (dropWhile sep (dropWhile (\<lambda>c. \<not> sep c) s)))"
      by (simp add: split_re_more [OF False])
    then show ?thesis
    proof
      assume "t = takeWhile (\<lambda>c. \<not> sep c) s"
      then show ?thesis by (rule tok)
    next
      assume "t \<in> set (split_re sep (dropWhile sep (dropWhile (\<lambda>c. \<not> sep c) s)))"
      with "1.IH" [OF refl refl False] "1.prems" show ?thesis by blast
    qed
  qed
qed

lemma filter_dropWhile_neg: "filter (\<lambda>c. \<not> P c) (dropWhile P xs) = filter (\<lambda>c. \<not> P c) xs"
  by (induction xs) auto

lemma filter_takeWhile_same: "filter P (takeWhile P xs) = takeWhile P xs"
  by (induction xs) auto

lemma concat_split_re: "concat (split_re sep s) = filter (\<lambda>c. \<not> sep c) s"
proof (induction sep s rule: split_re.induct)
  case (1 sep s)
  let ?tok = "takeWhile (\<lambda>c. \<not> sep c) s"
  let ?rest = "dropWhile (\<lambda>c. \<not> sep c) s"
  have s: "filter (\<lambda>c. \<not> sep c) s = ?tok @ filter (\<lambda>c. \<not> sep c) ?rest"
    using filter_append [of "\<lambda>c. \<not> sep c" ?tok ?rest] filter_takeWhile_same [of "\<lambda>c. \<not> sep c" s]
    by simp
  show ?case
  proof (cases "?rest = []")
    case True
    then show ?thesis
      using s by (simp add: split_re_last)
  next
    case False
    have "concat (split_re sep s) = ?tok @ concat (split_re sep (dropWhile sep ?rest))"
      by (simp add: split_re_more [OF False])
    also have "\<dots> = ?tok @ filter (\<lambda>c. \<not> sep c) (dropWhile sep ?rest)"
      using "1.IH" [OF refl refl False] by simp
    also have "\<dots> = ?tok @ filter (\<lambda>c. \<not> sep c) ?rest"
      by (simp add: filter_dropWhile_neg)
    finally show ?thesis using s by simp
  qed
qed

lemma dropWhile_none: "\<forall>c\<in>set t. \<not> P c \<Longrightarrow> dropWhile P t = t"
  by (cases t) auto

lemma trim_no_space: "\<forall>c\<in>set t. \<not> isWhiteSpace c \<Longrightarrow> trim t = t"
  by (simp add: trim_def dropWhile_none)

lemma trim_Nil: "trim [] = []"
  by (simp add: trim_def)

lemma uniqueTags_loop_firstSeen:
  "uniqueTags_loop lc xs seen acc = acc @ firstSeen lc (filter (\<lambda>x. lc x \<notin> seen) xs)"
proof (induction xs arbitrary: seen acc)
  case Nil
  then show ?case by simp
next
  case (Cons x xs)
  have eq: "filter (\<lambda>y. lc y \<noteq> lc x) (filter (\<lambda>y. lc y \<notin> seen) xs)
            = filter (\<lambda>y. lc y \<notin> insert (lc x) seen) xs"
    by (induction xs) auto
  show ?case
    using Cons.IH [of "insert (lc x) seen" "acc @ [x]"] Cons.IH [of seen acc] eq
    by (simp add: Let_def)
qed

lemma firstSeen_set_subset: "set (firstSeen f xs) \<subseteq> set xs"
  by (induction f xs rule: firstSeen.induct) auto

lemma firstSeen_distinct: "distinct (map f (firstSeen f xs))"
proof (induction f xs rule: firstSeen.induct)
  case (1 f)
  then show ?case by simp
next
  case (2 f x xs)
  have "f x \<notin> f ` set (firstSeen f (filter (\<lambda>y. f y \<noteq> f x) xs))"
    using firstSeen_set_subset [of f "filter (\<lambda>y. f y \<noteq> f x) xs"] by auto
  with 2 show ?case by simp
qed

lemma firstSeen_subseq: "subseq (firstSeen f xs) xs"
proof (induction f xs rule: firstSeen.induct)
  case (1 f)
  then show ?case by simp
next
  case (2 f x xs)
  have "subseq (filter (\<lambda>y. f y \<noteq> f x) xs) xs"
    by simp
  with 2 have "subseq (firstSeen f (filter (\<lambda>y. f y \<noteq> f x) xs)) xs"
    using subseq_order.order_trans by blast
  then show ?case by simp
qed

lemma firstSeen_image: "f ` set (firstSeen f xs) = f ` set xs"
proof (induction f xs rule: firstSeen.induct)
  case (1 f)
  then show ?case by simp
next
  case (2 f x xs)
  then show ?case by auto
qed

lemma firstSeen_first:
  "x \<in> set (firstSeen f xs) \<Longrightarrow> find (\<lambda>y. f y = f x) xs = Some x"
proof (induction f xs rule: firstSeen.induct)
  case (1 f)
  then show ?case by simp
next
  case (2 f a xs)
  show ?case
  proof (cases "x = a")
    case True
    then show ?thesis by simp
  next
    case False
    with "2.prems" have mem: "x \<in> set (firstSeen f (filter (\<lambda>y. f y \<noteq> f a) xs))"
      by simp
    then have ne: "f x \<noteq> f a"
      using firstSeen_set_subset [of f "filter (\<lambda>y. f y \<noteq> f a) xs"] by auto
    have "find (\<lambda>y. f y = f x) (filter (\<lambda>y. f y \<noteq> f a) xs) = Some x"
      using "2.IH" mem by simp
    moreover have "find (\<lambda>y. f y = f x) (filter (\<lambda>y. f y \<noteq> f a) xs) = find (\<lambda>y. f y = f x) xs"
      using ne by (induction xs) auto
    ultimately show ?thesis using ne by simp
  qed
qed

lemma blocks_dropWhile_sep: "blocks sep (dropWhile sep s) = blocks sep s"
  by (induction s) auto

lemma blocks_step:
  "blocks sep s =
     (if takeWhile (\<lambda>c. \<not> sep c) s = [] then [] else [takeWhile (\<lambda>c. \<not> sep c) s])
       @ blocks sep (dropWhile sep (dropWhile (\<lambda>c. \<not> sep c) s))"
proof (cases s)
  case Nil
  then show ?thesis by simp
next
  case (Cons c cs)
  show ?thesis
  proof (cases "sep c")
    case True
    with Cons show ?thesis
      using blocks_dropWhile_sep [of sep cs] by simp
  next
    case False
    with Cons show ?thesis
      using blocks_dropWhile_sep [of sep "dropWhile (\<lambda>c. \<not> sep c) cs"] by simp
  qed
qed

lemma split_re_blocks: "filter (\<lambda>t. t \<noteq> []) (split_re sep s) = blocks sep s"
proof (induction sep s rule: split_re.induct)
  case (1 sep s)
  let ?tok = "takeWhile (\<lambda>c. \<not> sep c) s"
  let ?rest = "dropWhile (\<lambda>c. \<not> sep c) s"
  show ?case
  proof (cases "?rest = []")
    case True
    then have "filter (\<lambda>t. t \<noteq> []) (split_re sep s) = (if ?tok = [] then [] else [?tok])"
      by (simp add: split_re_last)
    moreover have "blocks sep s = (if ?tok = [] then [] else [?tok])"
      using blocks_step [of sep s] True by simp
    ultimately show ?thesis by simp
  next
    case False
    have "filter (\<lambda>t. t \<noteq> []) (split_re sep s) =
        (if ?tok = [] then [] else [?tok])
          @ filter (\<lambda>t. t \<noteq> []) (split_re sep (dropWhile sep ?rest))"
      by (simp add: split_re_more [OF False])
    also have "\<dots> = (if ?tok = [] then [] else [?tok]) @ blocks sep (dropWhile sep ?rest)"
      using "1.IH" [OF refl refl False] by simp
    also have "\<dots> = blocks sep s"
      by (rule blocks_step [symmetric])
    finally show ?thesis .
  qed
qed

lemma tags_eq:
  "handleFormSubmit_tags B input =
     firstSeen (toLowerCase B) (filter (\<lambda>t. t \<noteq> []) (split_re isTagSeparator input))"
proof (cases "input = []")
  case True
  then show ?thesis
    by (simp add: handleFormSubmit_tags_def split_re_last)
next
  case False
  have "map trim (split_re isTagSeparator input) = split_re isTagSeparator input"
  proof (rule map_idI)
    fix t assume "t \<in> set (split_re isTagSeparator input)"
    then have "\<forall>c\<in>set t. \<not> isTagSeparator c"
      using split_re_no_sep by blast
    then have "\<forall>c\<in>set t. \<not> isWhiteSpace c"
      by (auto simp: isTagSeparator_def)
    then show "trim t = t" by (rule trim_no_space)
  qed
  with False show ?thesis
    by (simp add: handleFormSubmit_tags_def uniqueTags_loop_firstSeen)
qed

lemma split_re_example:
  "split_re isTagSeparator (js ''dev, Dev ,  tools'') = [js ''dev'', js ''Dev'', js ''tools'']"
  by (simp add: split_re_unfold js_def isTagSeparator_def isWhiteSpace_def)

lemma js_nonempty: "js ''dev'' \<noteq> []" "js ''Dev'' \<noteq> []" "js ''tools'' \<noteq> []"
  by (simp_all add: js_def)

lemma tags_example:
  assumes "toLowerCase B (js ''Dev'') = toLowerCase B (js ''dev'')"
    and "toLowerCase B (js ''tools'') \<noteq> toLowerCase B (js ''dev'')"
  shows "handleFormSubmit_tags B (js ''dev, Dev ,  tools'') = [js ''dev'', js ''tools'']"
  using assms by (simp add: tags_eq split_re_example js_nonempty)

lemma parseTags_eq:
  "parseTags input = take 12 (filter (\<lambda>s. s \<noteq> []) (map trim (split_char 44 input)))"
  by (simp add: parseTags_def trim_Nil)

lemma tags_members:
  assumes "t \<in> set (handleFormSubmit_tags B input)"
  shows "t \<noteq> [] \<and> trim t = t \<and> \<not> list_ex isTagSeparator t \<and>
         find (\<lambda>u. toLowerCase B u = toLowerCase B t)
           (filter (\<lambda>t. t \<noteq> []) (split_re isTagSeparator input)) = Some t"
proof -
  let ?tokens = "filter (\<lambda>t. t \<noteq> []) (split_re isTagSeparator input)"
  from assms have fs: "t \<in> set (firstSeen (toLowerCase B) ?tokens)"
    by (simp add: tags_eq)
  then have mem: "t \<in> set ?tokens"
    by (rule subsetD [OF firstSeen_set_subset])
  then have ne: "t \<noteq> []" and "t \<in> set (split_re isTagSeparator input)"
    by simp_all
  then have nosep: "\<forall>c\<in>set t. \<not> isTagSeparator c"
    using split_re_no_sep [of t isTagSeparator input] by auto
  then have "\<forall>c\<in>set t. \<not> isWhiteSpace c"
    by (auto simp: isTagSeparator_def)
  then have "trim t = t" by (rule trim_no_space)
  moreover have "\<not> list_ex isTagSeparator t"
    using nosep by (simp add: list_ex_iff)
  moreover have "find (\<lambda>u. toLowerCase B u = toLowerCase B t) ?tokens = Some t"
    using fs by (rule firstSeen_first)
  ultimately show ?thesis using ne by simp
qed

text \<open>
  Claim C3, for the tag parsing of \<^verbatim>\<open>handleFormSubmit\<close> in script.js: the tags are the
  non-empty pieces between the runs of commas, semicolons (ASCII or full-width) and white
  space, which are the maximal blocks without a separator; none of them holds a separator
  or needs trimming, and of the pieces that agree in lower case the first one is kept, in
  the order of the input. The empty input gives no tags, and \<^verbatim>\<open>"dev, Dev ,  tools"\<close> gives \<^verbatim>\<open>["dev", "tools"]\<close> wherever lower-casing
  identifies \<^verbatim>\<open>Dev\<close> with \<^verbatim>\<open>dev\<close> and not with \<^verbatim>\<open>tools\<close>. The \<^verbatim>\<open>parseTags\<close> of
  the second implementation splits at ASCII commas only, trims, drops the empty pieces and
  keeps the first twelve, duplicates included.
\<close>

theorem tag_normalization_first_seen:
  "handleFormSubmit_tags B input =
     firstSeen (toLowerCase B) (filter (\<lambda>t. t \<noteq> []) (split_re isTagSeparator input))
   \<and> filter (\<lambda>t. t \<noteq> []) (split_re isTagSeparator input) = blocks isTagSeparator input
   \<and> concat (split_re isTagSeparator input) = filter (\<lambda>c. \<not> isTagSeparator c) input
   \<and> (\<forall>t\<in>set (handleFormSubmit_tags B input).
         t \<noteq> [] \<and> trim t = t \<and> \<not> list_ex isTagSeparator t \<and>
         find (\<lambda>u. toLowerCase B u = toLowerCase B t)
           (filter (\<lambda>t. t \<noteq> []) (split_re isTagSeparator input)) = Some t)
   \<and> distinct (map (toLowerCase B) (handleFormSubmit_tags B input))
   \<and> subseq (handleFormSubmit_tags B input)
        (filter (\<lambda>t. t \<noteq> []) (split_re isTagSeparator input))
   \<and> toLowerCase B ` set (handleFormSubmit_tags B input) =
       toLowerCase B ` set (filter (\<lambda>t. t \<noteq> []) (split_re isTagSeparator input))
   \<and> handleFormSubmit_tags B [] = []
   \<and> (toLowerCase B (js ''Dev'') = toLowerCase B (js ''dev'') \<and>
       toLowerCase B (js ''tools'') \<noteq> toLowerCase B (js ''dev'') \<longrightarrow>
       handleFormSubmit_tags B (js ''dev, Dev ,  tools'') = [js ''dev'', js ''tools''])
   \<and> parseTags input = take 12 (filter (\<lambda>s. s \<noteq> []) (map trim (split_char 44 input)))"
proof -
  have "\<forall>t\<in>set (handleFormSubmit_tags B input).
         t \<noteq> [] \<and> trim t = t \<and> \<not> list_ex isTagSeparator t \<and>
         find (\<lambda>u. toLowerCase B u = toLowerCase B t)
           (filter (\<lambda>t. t \<noteq> []) (split_re isTagSeparator input)) = Some t"
    using tags_members by blast
  moreover have "handleFormSubmit_tags B [] = []"
    by (simp add: handleFormSubmit_tags_def)
  moreover have "distinct (map (toLowerCase B) (handleFormSubmit_tags B input))"
    by (simp only: tags_eq firstSeen_distinct)
  moreover have "subseq (handleFormSubmit_tags B input)
        (filter (\<lambda>t. t \<noteq> []) (split_re isTagSeparator input))"
    by (simp only: tags_eq firstSeen_subseq)
  moreover have "toLowerCase B ` set (handleFormSubmit_tags B input) =
       toLowerCase B ` set (filter (\<lambda>t. t \<noteq> []) (split_re isTagSeparator input))"
    by (simp only: tags_eq firstSeen_image)
  ultimately show ?thesis
    using tags_eq [of B input] concat_split_re [of isTagSeparator input]
      split_re_blocks [of isTagSeparator input] tags_example [of B] parseTags_eq [of input]
    by blast
qed

lemma asciiBrowser_lower: "toLowerCase asciiBrowser = map asciiLower"
  by (simp add: asciiBrowser_def)

theorem tag_normalization_first_seen_witness:
  "toLowerCase asciiBrowser (js ''Dev'') = toLowerCase asciiBrowser (js ''dev'')
   \<and> toLowerCase asciiBrowser (js ''tools'') \<noteq> toLowerCase asciiBrowser (js ''dev'')
   \<and> handleFormSubmit_tags asciiBrowser (js ''dev, Dev ,  tools'') = [js ''dev'', js ''tools'']
   \<and> set (handleFormSubmit_tags asciiBrowser (js ''dev, Dev ,  tools'')) \<noteq> {}"
proof -
  have a: "toLowerCase asciiBrowser (js ''Dev'') = toLowerCase asciiBrowser (js ''dev'')"
    by (simp add: asciiBrowser_lower js_def asciiLower_def)
  have b: "toLowerCase asciiBrowser (js ''tools'') \<noteq> toLowerCase asciiBrowser (js ''dev'')"
    by (simp add: asciiBrowser_lower js_def asciiLower_def)
  have c: "handleFormSubmit_tags asciiBrowser (js ''dev, Dev ,  tools'') = [js ''dev'', js ''tools'']"
    using tag_normalization_first_seen [of asciiBrowser "js ''dev, Dev ,  tools''"] a b by blast
  show ?thesis using a b c by simp
qed

text \<open>The input of scenario B in the second implementation: both \<^verbatim>\<open>dev\<close> and
  \<^verbatim>\<open>Dev\<close> stay.\<close>

theorem parseTags_keeps_case_duplicates:
  "parseTags (js ''dev, Dev ,  tools'') = [js ''dev'', js ''Dev'', js ''tools'']
   \<and> parseTags (js ''dev, Dev ,  tools'') \<noteq> [js ''dev'', js ''tools'']"
  by (simp add: parseTags_def js_def trim_def isWhiteSpace_def)

text \<open>
  Claim C10: \<^verbatim>\<open>parseTags\<close> never returns more than twelve tags; it returns the first
  twelve non-empty trimmed pieces and drops the rest without an error, as for an input of
  thirteen tags.
\<close>

theorem parseTags_at_most_twelve:
  "length (parseTags input) \<le> 12
   \<and> parseTags input = take 12 (filter (\<lambda>s. s \<noteq> []) (map trim (split_char 44 input)))
   \<and> parseTags (js ''a,b,c,d,e,f,g,h,i,j,k,l,m'') =
       [js ''a'', js ''b'', js ''c'', js ''d'', js ''e'', js ''f'', js ''g'', js ''h'',
        js ''i'', js ''j'', js ''k'', js ''l'']"
proof -
  have "parseTags (js ''a,b,c,d,e,f,g,h,i,j,k,l,m'') =
       [js ''a'', js ''b'', js ''c'', js ''d'', js ''e'', js ''f'', js ''g'', js ''h'',
        js ''i'', js ''j'', js ''k'', js ''l'']"
    by (simp add: parseTags_def js_def trim_def isWhiteSpace_def)
  moreover have "length (parseTags input) \<le> 12"
    by (simp add: parseTags_def)
  ultimately show ?thesis
    using parseTags_eq [of input] by simp
qed

section \<open>Deleting\<close>

lemma find_none_filter: "find (\<lambda>b. f b = k) xs = None \<Longrightarrow> filter (\<lambda>b. f b \<noteq> k) xs = xs"
  by (induction xs) (auto split: if_splits)

lemma find_filter_removed: "find (\<lambda>b. f b = k) (filter (\<lambda>b. f b \<noteq> k) xs) = None"
  by (induction xs) auto

lemma find_filter_other:
  "j \<noteq> k \<Longrightarrow> find (\<lambda>b. f b = j) (filter (\<lambda>b. f b \<noteq> k) xs) = find (\<lambda>b. f b = j) xs"
  by (induction xs) auto

lemma os_delete_absent: "os_get k s = None \<Longrightarrow> os_delete k s = s"
  by (simp add: os_get_def os_delete_def find_none_filter)

lemma os_get_deleted: "os_get k (os_delete k s) = None"
  by (simp add: os_get_def os_delete_def find_filter_removed)

lemma os_get_delete_other: "j \<noteq> k \<Longrightarrow> os_get j (os_delete k s) = os_get j s"
  by (simp add: os_get_def os_delete_def find_filter_other)

lemma store_ok_delete: "store_ok s \<Longrightarrow> store_ok (os_delete k s)"
  by (simp add: store_ok_def os_delete_def list_all_iff sorted_wrt_map sorted_wrt_filter)

text \<open>
  Claim C7, as the code has it: in both implementations the deletion of an id that has no
  record succeeds and leaves the store as it was (neither checks that the record exists,
  and the store's own delete does not fail on a missing key); the deletion always
  succeeds; after it the id has no record, and every other id has the record it had.
\<close>

theorem delete_is_noop_when_absent:
  "(os_get k s = None \<longrightarrow>
      BookmarkDB_delete k s = (Inr (), s) \<and> deleteBookmark k s = (Inr True, s))
   \<and> fst (BookmarkDB_delete k s) = Inr ()
   \<and> fst (deleteBookmark k s) = Inr True
   \<and> BookmarkDB_get k (snd (BookmarkDB_delete k s)) = None
   \<and> os_get k (snd (deleteBookmark k s)) = None
   \<and> (j \<noteq> k \<longrightarrow>
        BookmarkDB_get j (snd (BookmarkDB_delete k s)) = BookmarkDB_get j s \<and>
        os_get j (snd (deleteBookmark k s)) = os_get j s)"
  by (simp add: BookmarkDB_delete_def deleteBookmark_def BookmarkDB_get_def os_delete_absent
      os_get_deleted os_get_delete_other)

theorem delete_is_noop_when_absent_witness:
  "os_get 7 oneStore = None
   \<and> BookmarkDB_delete 7 oneStore = (Inr (), oneStore)
   \<and> deleteBookmark 7 oneStore = (Inr True, oneStore)
   \<and> BookmarkDB_get 1 (snd (BookmarkDB_delete 7 oneStore)) = BookmarkDB_get 1 oneStore
   \<and> BookmarkDB_get 1 oneStore \<noteq> None"
proof -
  have a: "os_get 7 oneStore = None"
    by (simp add: os_get_def oneStore_def)
  have b: "BookmarkDB_get 1 oneStore \<noteq> None"
    by (simp add: BookmarkDB_get_def os_get_def oneStore_def)
  have c: "(1::nat) \<noteq> 7" by simp
  show ?thesis
    using delete_is_noop_when_absent [of 7 oneStore 1] a b c by simp
qed

text \<open>No record has the id 7, and its deletion does not fail.\<close>

theorem delete_absent_does_not_fail:
  "BookmarkDB_get 7 oneStore = None
   \<and> fst (BookmarkDB_delete 7 oneStore) = Inr ()
   \<and> fst (BookmarkDB_delete 7 oneStore) \<noteq> Inl NotFound
   \<and> fst (deleteBookmark 7 oneStore) \<noteq> Inl NotFound"
  by (simp add: BookmarkDB_get_def os_get_def oneStore_def BookmarkDB_delete_def deleteBookmark_def)

section \<open>Creating\<close>

lemma digits_1: "n < 10 \<Longrightarrow> digits n = [48 + n]"
  by (subst digits.simps) simp

lemma digits_2: "10 \<le> n \<Longrightarrow> n < 100 \<Longrightarrow> digits n = [48 + n div 10, 48 + n mod 10]"
  by (subst digits.simps) (simp add: digits_1)

lemma digits_3:
  "100 \<le> n \<Longrightarrow> n < 1000 \<Longrightarrow> digits n = [48 + n div 100, 48 + n div 10 mod 10, 48 + n mod 10]"
  by (subst digits.simps) (simp add: digits_2 div_mult2_eq [symmetric])

lemma digits_4:
  "1000 \<le> n \<Longrightarrow> n < 10000 \<Longrightarrow>
   digits n = [48 + n div 1000, 48 + n div 100 mod 10, 48 + n div 10 mod 10, 48 + n mod 10]"
  by (subst digits.simps) (simp add: digits_3 div_mult2_eq [symmetric])

lemma pad_two: "n < 100 \<Longrightarrow> padStart2 (String_of (int n)) = [48 + n div 10, 48 + n mod 10]"
proof (cases "n < 10")
  case True
  then show ?thesis
    by (simp add: padStart2_def String_of_def digits_1)
next
  case False
  assume "n < 100"
  with False show ?thesis
    by (simp add: padStart2_def String_of_def digits_2)
qed

lemma year_four:
  "1000 \<le> y \<Longrightarrow> y \<le> 9999 \<Longrightarrow>
   String_of y = [48 + nat y div 1000, 48 + nat y div 100 mod 10, 48 + nat y div 10 mod 10,
                  48 + nat y mod 10]"
  by (simp add: String_of_def digits_4)

lemma formattedDate_chars:
  assumes "clock_ok d"
  shows "formattedDate d =
    [48 + nat (getFullYear d) div 1000, 48 + nat (getFullYear d) div 100 mod 10,
     48 + nat (getFullYear d) div 10 mod 10, 48 + nat (getFullYear d) mod 10, 45,
     48 + (getMonth d + 1) div 10, 48 + (getMonth d + 1) mod 10, 45,
     48 + getDate d div 10, 48 + getDate d mod 10, 32,
     48 + getHours d div 10, 48 + getHours d mod 10, 58,
     48 + getMinutes d div 10, 48 + getMinutes d mod 10]"
proof -
  from assms have y: "1000 \<le> getFullYear d" "getFullYear d \<le> 9999"
    and m: "getMonth d + 1 < 100" and dd: "getDate d < 100"
    and h: "getHours d < 100" and mi: "getMinutes d < 100"
    by (simp_all add: clock_ok_def)
  show ?thesis
    unfolding formattedDate_def Let_def year_four [OF y] pad_two [OF m] pad_two [OF dd]
      pad_two [OF h] pad_two [OF mi]
    by (simp add: js_def)
qed

lemma fmtDate_formattedDate: "fmtDate d = formattedDate d"
  by (simp add: fmtDate_def formattedDate_def)

lemma digit_tens: "n < 100 \<Longrightarrow> isDigit (48 + n div 10)"
  by (simp add: isDigit_def)

lemma digit_units: "isDigit (48 + n mod 10)"
  by (simp add: isDigit_def)

lemma digit_thousands: "n < 10000 \<Longrightarrow> isDigit (48 + n div 1000)"
  by (simp add: isDigit_def)

lemma formattedDate_format:
  assumes "clock_ok d"
  shows "matchesStampFormat (formattedDate d)"
proof -
  from assms have y: "nat (getFullYear d) < 10000"
    and m: "Suc (getMonth d) < 100" and dd: "getDate d < 100"
    and h: "getHours d < 100" and mi: "getMinutes d < 100"
    by (auto simp: clock_ok_def)
  show ?thesis
    unfolding formattedDate_chars [OF assms] matchesStampFormat_def
    by (simp add: digit_tens [OF m] digit_tens [OF dd] digit_tens [OF h] digit_tens [OF mi]
        digit_units digit_thousands [OF y])
qed


lemma formattedDate_stampOf:
  "clock_ok d \<Longrightarrow>
   formattedDate d =
     stampOf (getFullYear d) (getMonth d + 1) (getDate d) (getHours d) (getMinutes d)"
  by (simp add: formattedDate_chars stampOf_def)

lemma two_digits_eq: "a div 10 = b div 10 \<Longrightarrow> a mod 10 = b mod 10 \<Longrightarrow> a = (b::nat)"
  by (metis div_mult_mod_eq)

lemma four_digits_eq:
  assumes "a div 1000 = b div 1000" and "a div 100 mod 10 = b div 100 mod 10"
    and "a div 10 mod 10 = b div 10 mod 10" and "a mod 10 = b mod (10::nat)"
  shows "a = b"
proof -
  have "a div 100 div 10 = b div 100 div 10"
    using assms(1) by (simp add: div_mult2_eq [symmetric])
  then have h: "a div 100 = b div 100"
    using assms(2) by (rule two_digits_eq)
  have "a div 10 div 10 = b div 10 div 10"
    using h by (simp add: div_mult2_eq [symmetric])
  then have "a div 10 = b div 10"
    using assms(3) by (rule two_digits_eq)
  then show ?thesis
    using assms(4) by (rule two_digits_eq)
qed

lemma stampOf_inj:
  assumes "stampOf y mo d h mi = stampOf y' mo' d' h' mi'" and "0 \<le> y" and "0 \<le> y'"
  shows "y = y' \<and> mo = mo' \<and> d = d' \<and> h = h' \<and> mi = mi'"
proof -
  from assms(1) have y: "nat y div 1000 = nat y' div 1000" "nat y div 100 mod 10 = nat y' div 100 mod 10"
    "nat y div 10 mod 10 = nat y' div 10 mod 10" "nat y mod 10 = nat y' mod 10"
    and m: "mo div 10 = mo' div 10" "mo mod 10 = mo' mod 10"
    and d: "d div 10 = d' div 10" "d mod 10 = d' mod 10"
    and h: "h div 10 = h' div 10" "h mod 10 = h' mod 10"
    and mi: "mi div 10 = mi' div 10" "mi mod 10 = mi' mod 10"
    by (simp_all add: stampOf_def)
  have "nat y = nat y'" using y by (rule four_digits_eq)
  then have "y = y'" using assms(2,3) by simp
  moreover have "mo = mo'" using m by (rule two_digits_eq)
  moreover have "d = d'" using d by (rule two_digits_eq)
  moreover have "h = h'" using h by (rule two_digits_eq)
  moreover have "mi = mi'" using mi by (rule two_digits_eq)
  ultimately show ?thesis by simp
qed

lemma formattedDate_inj:
  assumes "clock_ok d" and "clock_ok d'" and "formattedDate d' = formattedDate d"
  shows "d' = d"
proof -
  have "stampOf (getFullYear d') (getMonth d' + 1) (getDate d') (getHours d') (getMinutes d') =
        stampOf (getFullYear d) (getMonth d + 1) (getDate d) (getHours d) (getMinutes d)"
    using assms by (simp add: formattedDate_stampOf)
  moreover have "0 \<le> getFullYear d'" "0 \<le> getFullYear d"
    using assms(1,2) by (simp_all add: clock_ok_def)
  ultimately have "getFullYear d' = getFullYear d \<and> getMonth d' + 1 = getMonth d + 1 \<and>
      getDate d' = getDate d \<and> getHours d' = getHours d \<and> getMinutes d' = getMinutes d"
    by (rule stampOf_inj)
  then show ?thesis by simp
qed

lemma find_append_last: "\<forall>x\<in>set xs. \<not> P x \<Longrightarrow> P y \<Longrightarrow> find P (xs @ [y]) = Some y"
  by (induction xs) auto

lemma find_append_other: "\<not> P y \<Longrightarrow> find P (xs @ [y]) = find P xs"
  by (induction xs) auto

lemma os_get_add:
  assumes "store_ok s"
  shows "os_get (keyGen s) (snd (os_add v s)) = Some (v\<lparr>b_id := keyGen s\<rparr>)"
proof -
  have "\<forall>b\<in>set (records s). \<not> b_id b = keyGen s"
    using assms by (auto simp: store_ok_def list_all_iff)
  then show ?thesis
    by (simp add: os_get_def os_add_def Let_def find_append_last)
qed

lemma os_get_add_other: "j \<noteq> keyGen s \<Longrightarrow> os_get j (snd (os_add v s)) = os_get j s"
  by (simp add: os_get_def os_add_def Let_def find_append_other)

lemma store_ok_add:
  assumes "store_ok s"
  shows "store_ok (snd (os_add v s))"
  using assms
  by (auto simp: store_ok_def os_add_def Let_def list_all_iff sorted_wrt_append)

lemma store_ok_empty: "store_ok emptyStore"
  by (simp add: store_ok_def emptyStore_def)

lemma st_db_renderList: "st_db (fst (renderList st)) = st_db st"
  by (simp add: renderList_def Let_def)

lemma st_db_refreshList: "st_db (fst (refreshList B st)) = st_db st"
  by (simp add: refreshList_def Let_def st_db_renderList)

lemma onFormSubmit_add:
  assumes "isValidUrl B (trim f_url)" and "trim f_name \<noteq> []"
  shows "fst (onFormSubmit B now ModeAdd i f_url f_name f_tags f_c st) = Inr ()"
    and "st_db (snd (onFormSubmit B now ModeAdd i f_url f_name f_tags f_c st)) =
         snd (os_add \<lparr>b_id = 0, b_name = trim f_name, b_url = trim f_url,
                      b_tags = parseTags f_tags, b_createdAt = fmtDate now\<rparr> (st_db st))"
  using assms by (simp_all add: onFormSubmit_def Let_def addBookmark_def st_db_refreshList)

text \<open>
  Claim C1: in a store that this program has written, and at a time whose year has four
  digits, \<^verbatim>\<open>BookmarkDB.add\<close> returns the key the store assigned, and \<^verbatim>\<open>get\<close> of that
  key gives the record with the name, the URL and the tags of the draft (no tags when the
  draft has none), that key as \<^verbatim>\<open>id\<close>, and as \<^verbatim>\<open>createdAt\<close> the stamp of the time
  of the call: the digits of its year, month, day, hour and minute in the form
  \<^verbatim>\<open>YYYY-MM-DD HH:MM\<close>, so that two times with the same stamp agree in all five. The same
  holds for a creation through \<^verbatim>\<open>onFormSubmit\<close> of the second implementation, whose
  draft is the trimmed name, the trimmed URL and the parsed tags of the form.
\<close>

theorem create_then_get:
  assumes "store_ok s" and "clock_ok now"
  shows "fst (BookmarkDB_add now d s) = Inr (keyGen s)
    \<and> BookmarkDB_get (keyGen s) (snd (BookmarkDB_add now d s)) =
        Some \<lparr>b_id = keyGen s, b_name = d_name d, b_url = d_url d,
              b_tags = (case d_tags d of None \<Rightarrow> [] | Some ts \<Rightarrow> ts),
              b_createdAt = stampOf (getFullYear now) (getMonth now + 1) (getDate now)
                              (getHours now) (getMinutes now)\<rparr>
    \<and> formattedDate now =
        stampOf (getFullYear now) (getMonth now + 1) (getDate now) (getHours now) (getMinutes now)
    \<and> fmtDate now =
        stampOf (getFullYear now) (getMonth now + 1) (getDate now) (getHours now) (getMinutes now)
    \<and> matchesStampFormat
        (stampOf (getFullYear now) (getMonth now + 1) (getDate now) (getHours now) (getMinutes now))
    \<and> (clock_ok now' \<and> formattedDate now' = formattedDate now \<longrightarrow> now' = now)
    \<and> store_ok (snd (BookmarkDB_add now d s))
    \<and> (isValidUrl B (trim f_url) \<and> trim f_name \<noteq> [] \<and> st_db st = s \<longrightarrow>
         fst (onFormSubmit B now ModeAdd i f_url f_name f_tags f_c st) = Inr () \<and>
         os_get (keyGen s) (st_db (snd (onFormSubmit B now ModeAdd i f_url f_name f_tags f_c st))) =
           Some \<lparr>b_id = keyGen s, b_name = trim f_name, b_url = trim f_url,
                 b_tags = parseTags f_tags,
                 b_createdAt = stampOf (getFullYear now) (getMonth now + 1) (getDate now)
                                 (getHours now) (getMinutes now)\<rparr>)"
proof -
  let ?stamp = "stampOf (getFullYear now) (getMonth now + 1) (getDate now) (getHours now) (getMinutes now)"
  have fd: "formattedDate now = ?stamp"
    using assms(2) by (rule formattedDate_stampOf)
  have fm: "fmtDate now = ?stamp"
    using fd by (simp add: fmtDate_formattedDate)
  have a: "fst (BookmarkDB_add now d s) = Inr (keyGen s)"
    by (simp add: BookmarkDB_add_def Let_def os_add_def)
  have b: "BookmarkDB_get (keyGen s) (snd (BookmarkDB_add now d s)) =
        Some \<lparr>b_id = keyGen s, b_name = d_name d, b_url = d_url d,
              b_tags = (case d_tags d of None \<Rightarrow> [] | Some ts \<Rightarrow> ts),
              b_createdAt = ?stamp\<rparr>"
    using os_get_add [OF assms(1)] fd
    by (simp add: BookmarkDB_add_def BookmarkDB_get_def Let_def)
  have c: "matchesStampFormat ?stamp"
    using formattedDate_format [OF assms(2)] fd by simp
  have inj: "clock_ok now' \<and> formattedDate now' = formattedDate now \<longrightarrow> now' = now"
    using formattedDate_inj [OF assms(2), of now'] by blast
  have e: "store_ok (snd (BookmarkDB_add now d s))"
    using store_ok_add [OF assms(1)] by (simp add: BookmarkDB_add_def Let_def)
  have f: "isValidUrl B (trim f_url) \<and> trim f_name \<noteq> [] \<and> st_db st = s \<longrightarrow>
         fst (onFormSubmit B now ModeAdd i f_url f_name f_tags f_c st) = Inr () \<and>
         os_get (keyGen s) (st_db (snd (onFormSubmit B now ModeAdd i f_url f_name f_tags f_c st))) =
           Some \<lparr>b_id = keyGen s, b_name = trim f_name, b_url = trim f_url,
                 b_tags = parseTags f_tags, b_createdAt = ?stamp\<rparr>"
  proof (intro impI, elim conjE)
    assume v: "isValidUrl B (trim f_url)" and n: "trim f_name \<noteq> []" and s: "st_db st = s"
    show "fst (onFormSubmit B now ModeAdd i f_url f_name f_tags f_c st) = Inr () \<and>
         os_get (keyGen s) (st_db (snd (onFormSubmit B now ModeAdd i f_url f_name f_tags f_c st))) =
           Some \<lparr>b_id = keyGen s, b_name = trim f_name, b_url = trim f_url,
                 b_tags = parseTags f_tags, b_createdAt = ?stamp\<rparr>"
      using onFormSubmit_add [OF v n, of now i f_tags f_c st] os_get_add [OF assms(1)] fm s
      by simp
  qed
  from a b fd fm c inj e f show ?thesis by blast
qed

lemma exampleNow_ok: "clock_ok exampleNow"
  by (simp add: clock_ok_def exampleNow_def)

lemma example_url_valid: "isValidUrl asciiBrowser (trim (js ''https://a.example/''))"
  by (simp add: isValidUrl_def new_URL_def url_scheme_def trim_def js_def isWhiteSpace_def
      isAsciiAlpha_def isSchemeChar_def isDigit_def asciiLower_def asciiBrowser_def)

lemma example_name_nonempty: "trim (js ''Alpha'') \<noteq> []"
  by (simp add: trim_def js_def isWhiteSpace_def)

theorem create_then_get_witness:
  "store_ok emptyStore \<and> clock_ok exampleNow
   \<and> isValidUrl asciiBrowser (trim (js ''https://a.example/''))
   \<and> trim (js ''Alpha'') \<noteq> []
   \<and> BookmarkDB_get 1 (snd (BookmarkDB_add exampleNow exampleDraft emptyStore)) =
       Some \<lparr>b_id = 1, b_name = js ''Alpha'', b_url = js ''https://a.example/'',
             b_tags = [js ''dev''], b_createdAt = js ''2026-11-02 09:05''\<rparr>
   \<and> formattedDate exampleNow = js ''2026-11-02 09:05''
   \<and> fmtDate exampleNow = js ''2026-11-02 09:05''
   \<and> matchesStampFormat (js ''2026-11-02 09:05'')
   \<and> fst (onFormSubmit asciiBrowser exampleNow ModeAdd 0 (js ''https://a.example/'')
             (js ''Alpha'') (js ''dev'') [] emptyState) = Inr ()"
proof -
  have st: "stampOf (getFullYear exampleNow) (Suc (getMonth exampleNow)) (getDate exampleNow)
      (getHours exampleNow) (getMinutes exampleNow) = js ''2026-11-02 09:05''"
    by (simp add: stampOf_def exampleNow_def js_def)
  have k: "keyGen emptyStore = 1" "st_db emptyState = emptyStore"
    by (simp_all add: emptyStore_def emptyState_def)
  show ?thesis
    using create_then_get [OF store_ok_empty exampleNow_ok, where d = exampleDraft
        and B = asciiBrowser and f_url = "js ''https://a.example/''" and f_name = "js ''Alpha''"
        and st = emptyState and i = 0 and f_tags = "js ''dev''" and f_c = "[]"
        and now' = exampleNow]
      store_ok_empty exampleNow_ok example_url_valid example_name_nonempty k
    by (simp add: st exampleDraft_def)
qed

section \<open>Updating\<close>

lemma find_id: "find (\<lambda>b. b_id b = k) xs = Some v \<Longrightarrow> b_id v = k"
  by (induction xs) (auto split: if_splits)

lemma find_list_ex: "find P xs = Some v \<Longrightarrow> list_ex P xs"
  by (induction xs) (auto split: if_splits)

lemma find_map_replace:
  "find (\<lambda>b. b_id b = k) xs = Some old \<Longrightarrow> b_id v = k \<Longrightarrow>
   find (\<lambda>b. b_id b = k) (map (\<lambda>b. if b_id b = k then v else b) xs) = Some v"
  by (induction xs) (auto split: if_splits)

lemma find_map_replace_other:
  "j \<noteq> k \<Longrightarrow> b_id v = k \<Longrightarrow>
   find (\<lambda>b. b_id b = j) (map (\<lambda>b. if b_id b = k then v else b) xs) = find (\<lambda>b. b_id b = j) xs"
  by (induction xs) auto

lemma os_put_existing:
  assumes "os_get k s = Some old" and "b_id v = k"
  shows "fst (os_put v s) = k" and "os_get k (snd (os_put v s)) = Some v"
    and "j \<noteq> k \<Longrightarrow> os_get j (snd (os_put v s)) = os_get j s"
proof -
  have ex: "list_ex (\<lambda>b. b_id b = b_id v) (records s)"
    using assms find_list_ex [of "\<lambda>b. b_id b = k" "records s" old] by (simp add: os_get_def)
  show "fst (os_put v s) = k"
    using assms(2) by (simp add: os_put_def)
  show "os_get k (snd (os_put v s)) = Some v"
    using assms ex find_map_replace [of k "records s" old v]
    by (simp add: os_put_def os_get_def)
  show "j \<noteq> k \<Longrightarrow> os_get j (snd (os_put v s)) = os_get j s"
    using assms ex find_map_replace_other [of j k v "records s"]
    by (simp add: os_put_def os_get_def)
qed

lemma map_id_replace:
  "map b_id (map (\<lambda>b. if b_id b = b_id v then v else b) xs) = map b_id xs"
  by (induction xs) auto

lemma find_in_set: "find P xs = Some x \<Longrightarrow> x \<in> set xs"
  by (induction xs) (auto split: if_splits)

lemma store_ok_put:
  assumes "store_ok s" and "os_get k s = Some old" and "b_id v = k"
  shows "store_ok (snd (os_put v s))"
proof -
  have ex: "list_ex (\<lambda>b. b_id b = b_id v) (records s)"
    using assms find_list_ex [of "\<lambda>b. b_id b = k" "records s" old] by (simp add: os_get_def)
  have "old \<in> set (records s)" and "b_id old = k"
    using assms(2) find_id [of k "records s" old] find_in_set [of "\<lambda>b. b_id b = k" "records s" old]
    by (simp_all add: os_get_def)
  then have lt: "k < keyGen s"
    using assms(1) by (auto simp: store_ok_def list_all_iff)
  have recs: "records (snd (os_put v s)) =
      map (\<lambda>b. if b_id b = b_id v then v else b) (records s)"
    and kg: "keyGen (snd (os_put v s)) = keyGen s"
    using ex by (simp_all add: os_put_def)
  have ids: "map b_id (records (snd (os_put v s))) = map b_id (records s)"
    unfolding recs by (rule map_id_replace)
  have "\<forall>b\<in>set (records (snd (os_put v s))). b_id b < keyGen s"
    unfolding recs using assms(1,3) lt by (auto simp: store_ok_def list_all_iff)
  then show ?thesis
    using assms(1) unfolding store_ok_def ids kg by (simp add: list_all_iff)
qed

lemma store_ok_update:
  assumes "store_ok s"
  shows "store_ok (snd (BookmarkDB_update k p s))" and "store_ok (snd (updateBookmark k p s))"
proof -
  show "store_ok (snd (BookmarkDB_update k p s))"
  proof (cases "os_get k s")
    case None
    with assms show ?thesis by (simp add: BookmarkDB_update_def)
  next
    case (Some old)
    have "b_id old = k"
      using Some find_id [of k "records s" old] by (simp add: os_get_def)
    then show ?thesis
      using Some store_ok_put [OF assms Some] by (simp add: BookmarkDB_update_def Let_def)
  qed
  show "store_ok (snd (updateBookmark k p s))"
  proof (cases "os_get k s")
    case None
    with assms show ?thesis by (simp add: updateBookmark_def)
  next
    case (Some old)
    then show ?thesis
      using store_ok_put [OF assms Some] by (simp add: updateBookmark_def Let_def)
  qed
qed

lemma BookmarkDB_update_found:
  assumes "os_get k s = Some old"
  shows "fst (BookmarkDB_update k p s) = Inr k"
    and "BookmarkDB_get k (snd (BookmarkDB_update k p s)) =
           Some (old\<lparr>b_name := d_name p, b_url := d_url p,
                     b_tags := (case d_tags p of None \<Rightarrow> [] | Some ts \<Rightarrow> ts)\<rparr>)"
    and "j \<noteq> k \<Longrightarrow> BookmarkDB_get j (snd (BookmarkDB_update k p s)) = BookmarkDB_get j s"
proof -
  let ?v = "old\<lparr>b_name := d_name p, b_url := d_url p,
                 b_tags := (case d_tags p of None \<Rightarrow> [] | Some ts \<Rightarrow> ts)\<rparr>"
  have idv: "b_id ?v = k"
    using assms find_id [of k "records s" old] by (simp add: os_get_def)
  show "fst (BookmarkDB_update k p s) = Inr k"
    using assms os_put_existing(1) [OF assms idv] by (simp add: BookmarkDB_update_def Let_def)
  show "BookmarkDB_get k (snd (BookmarkDB_update k p s)) = Some ?v"
    using assms os_put_existing(2) [OF assms idv]
    by (simp add: BookmarkDB_update_def BookmarkDB_get_def Let_def)
  show "j \<noteq> k \<Longrightarrow> BookmarkDB_get j (snd (BookmarkDB_update k p s)) = BookmarkDB_get j s"
    using assms os_put_existing(3) [OF assms idv, of j]
    by (simp add: BookmarkDB_update_def BookmarkDB_get_def Let_def)
qed

lemma BookmarkDB_update_absent: "os_get k s = None \<Longrightarrow> BookmarkDB_update k p s = (Inl NotFound, s)"
  by (simp add: BookmarkDB_update_def)

lemma updateBookmark_found:
  assumes "os_get k s = Some old"
  shows "fst (updateBookmark k p s) = Inr True"
    and "os_get k (snd (updateBookmark k p s)) =
           Some (old\<lparr>b_name := d_name p, b_url := d_url p,
                     b_tags := (case d_tags p of None \<Rightarrow> b_tags old | Some ts \<Rightarrow> ts),
                     b_createdAt := (case d_createdAt p of None \<Rightarrow> b_createdAt old | Some c \<Rightarrow> c)\<rparr>)"
    and "j \<noteq> k \<Longrightarrow> os_get j (snd (updateBookmark k p s)) = os_get j s"
proof -
  let ?v = "old\<lparr>b_name := d_name p, b_url := d_url p,
                 b_tags := (case d_tags p of None \<Rightarrow> b_tags old | Some ts \<Rightarrow> ts),
                 b_createdAt := (case d_createdAt p of None \<Rightarrow> b_createdAt old | Some c \<Rightarrow> c),
                 b_id := k\<rparr>"
  have idold: "b_id old = k"
    using assms find_id [of k "records s" old] by (simp add: os_get_def)
  have idv: "b_id ?v = k" by simp
  have v: "?v = old\<lparr>b_name := d_name p, b_url := d_url p,
                     b_tags := (case d_tags p of None \<Rightarrow> b_tags old | Some ts \<Rightarrow> ts),
                     b_createdAt := (case d_createdAt p of None \<Rightarrow> b_createdAt old | Some c \<Rightarrow> c)\<rparr>"
    using idold by simp
  show "fst (updateBookmark k p s) = Inr True"
    using assms by (simp add: updateBookmark_def Let_def)
  show "os_get k (snd (updateBookmark k p s)) =
           Some (old\<lparr>b_name := d_name p, b_url := d_url p,
                     b_tags := (case d_tags p of None \<Rightarrow> b_tags old | Some ts \<Rightarrow> ts),
                     b_createdAt := (case d_createdAt p of None \<Rightarrow> b_createdAt old | Some c \<Rightarrow> c)\<rparr>)"
    using assms os_put_existing(2) [OF assms idv] v
    by (simp add: updateBookmark_def Let_def)
  show "j \<noteq> k \<Longrightarrow> os_get j (snd (updateBookmark k p s)) = os_get j s"
    using assms os_put_existing(3) [OF assms idv, of j]
    by (simp add: updateBookmark_def Let_def)
qed

lemma onFormSubmit_edit:
  assumes "isValidUrl B (trim f_url)" and "trim f_name \<noteq> []" and "os_get k (st_db st) = Some old"
  shows "fst (onFormSubmit B now ModeEdit k f_url f_name f_tags f_c st) = Inr ()"
    and "os_get k (st_db (snd (onFormSubmit B now ModeEdit k f_url f_name f_tags f_c st))) =
           Some (old\<lparr>b_name := trim f_name, b_url := trim f_url, b_tags := parseTags f_tags,
                     b_createdAt := (if trim f_c = [] then b_createdAt old else trim f_c)\<rparr>)"
proof -
  let ?data = "\<lparr>d_name = trim f_name, d_url = trim f_url, d_tags = Some (parseTags f_tags),
                 d_createdAt = (if trim f_c \<noteq> [] then Some (trim f_c) else None)\<rparr>"
  have r: "fst (updateBookmark k ?data (st_db st)) = Inr True"
    using updateBookmark_found(1) [OF assms(3)] .
  have g: "os_get k (snd (updateBookmark k ?data (st_db st))) =
      Some (old\<lparr>b_name := trim f_name, b_url := trim f_url, b_tags := parseTags f_tags,
                b_createdAt := (if trim f_c = [] then b_createdAt old else trim f_c)\<rparr>)"
    using updateBookmark_found(2) [OF assms(3), of ?data] by simp
  show "fst (onFormSubmit B now ModeEdit k f_url f_name f_tags f_c st) = Inr ()"
    using assms(1,2) r by (simp add: onFormSubmit_def Let_def)
  show "os_get k (st_db (snd (onFormSubmit B now ModeEdit k f_url f_name f_tags f_c st))) =
           Some (old\<lparr>b_name := trim f_name, b_url := trim f_url, b_tags := parseTags f_tags,
                     b_createdAt := (if trim f_c = [] then b_createdAt old else trim f_c)\<rparr>)"
    using assms(1,2) r g by (simp add: onFormSubmit_def Let_def st_db_refreshList)
qed


lemma updateBookmark_absent: "os_get k s = None \<Longrightarrow> updateBookmark k p s = (Inl NotFound, s)"
  by (simp add: updateBookmark_def)

text \<open>
  Claim C2, as the code has it. For a record that exists: \<^verbatim>\<open>BookmarkDB.update\<close> of
  script.js replaces the name, the URL and the tags (no tags when the patch has none) and
  leaves \<^verbatim>\<open>createdAt\<close> as it was, whatever the patch holds; \<^verbatim>\<open>updateBookmark\<close> of
  the second implementation replaces the name, the URL and the tags, and replaces
  \<^verbatim>\<open>createdAt\<close> by the one of the patch when the patch has one and keeps it otherwise.
  Its form handler puts the trimmed \<^verbatim>\<open>createdAt\<close> field into the patch only when that is
  not empty, so an edit keeps the stamp for an empty field and stores exactly the trimmed
  field otherwise. For an id without a record both updates fail and leave the store as it
  was.
\<close>

theorem update_merges_patch:
  "(os_get k s = Some old \<longrightarrow>
      fst (BookmarkDB_update k p s) = Inr k \<and>
      BookmarkDB_get k (snd (BookmarkDB_update k p s)) =
        Some (old\<lparr>b_name := d_name p, b_url := d_url p,
                  b_tags := (case d_tags p of None \<Rightarrow> [] | Some ts \<Rightarrow> ts)\<rparr>) \<and>
      map_option b_createdAt (BookmarkDB_get k (snd (BookmarkDB_update k p s))) =
        Some (b_createdAt old) \<and>
      fst (updateBookmark k p s) = Inr True \<and>
      os_get k (snd (updateBookmark k p s)) =
        Some (old\<lparr>b_name := d_name p, b_url := d_url p,
                  b_tags := (case d_tags p of None \<Rightarrow> b_tags old | Some ts \<Rightarrow> ts),
                  b_createdAt := (case d_createdAt p of None \<Rightarrow> b_createdAt old | Some c \<Rightarrow> c)\<rparr>))
   \<and> (isValidUrl B (trim f_url) \<and> trim f_name \<noteq> [] \<and> os_get k (st_db st) = Some old \<longrightarrow>
        fst (onFormSubmit B now ModeEdit k f_url f_name f_tags f_c st) = Inr () \<and>
        os_get k (st_db (snd (onFormSubmit B now ModeEdit k f_url f_name f_tags f_c st))) =
          Some (old\<lparr>b_name := trim f_name, b_url := trim f_url, b_tags := parseTags f_tags,
                    b_createdAt := (if trim f_c = [] then b_createdAt old else trim f_c)\<rparr>))
   \<and> (os_get k s = None \<longrightarrow>
        BookmarkDB_update k p s = (Inl NotFound, s) \<and> updateBookmark k p s = (Inl NotFound, s))"
proof (intro conjI impI)
  assume g: "os_get k s = Some old"
  show "fst (BookmarkDB_update k p s) = Inr k"
    using g by (rule BookmarkDB_update_found(1))
  show "BookmarkDB_get k (snd (BookmarkDB_update k p s)) =
        Some (old\<lparr>b_name := d_name p, b_url := d_url p,
                  b_tags := (case d_tags p of None \<Rightarrow> [] | Some ts \<Rightarrow> ts)\<rparr>)"
    using g by (rule BookmarkDB_update_found(2))
  then show "map_option b_createdAt (BookmarkDB_get k (snd (BookmarkDB_update k p s))) =
        Some (b_createdAt old)"
    by simp
  show "fst (updateBookmark k p s) = Inr True"
    using g by (rule updateBookmark_found(1))
  show "os_get k (snd (updateBookmark k p s)) =
        Some (old\<lparr>b_name := d_name p, b_url := d_url p,
                  b_tags := (case d_tags p of None \<Rightarrow> b_tags old | Some ts \<Rightarrow> ts),
                  b_createdAt := (case d_createdAt p of None \<Rightarrow> b_createdAt old | Some c \<Rightarrow> c)\<rparr>)"
    using g by (rule updateBookmark_found(2))
next
  assume a: "isValidUrl B (trim f_url) \<and> trim f_name \<noteq> [] \<and> os_get k (st_db st) = Some old"
  then have v: "isValidUrl B (trim f_url)" and n: "trim f_name \<noteq> []"
    and g: "os_get k (st_db st) = Some old"
    by simp_all
  show "fst (onFormSubmit B now ModeEdit k f_url f_name f_tags f_c st) = Inr ()"
    using v n g by (rule onFormSubmit_edit(1))
  show "os_get k (st_db (snd (onFormSubmit B now ModeEdit k f_url f_name f_tags f_c st))) =
          Some (old\<lparr>b_name := trim f_name, b_url := trim f_url, b_tags := parseTags f_tags,
                    b_createdAt := (if trim f_c = [] then b_createdAt old else trim f_c)\<rparr>)"
    using v n g by (rule onFormSubmit_edit(2))
next
  assume "os_get k s = None"
  then show "BookmarkDB_update k p s = (Inl NotFound, s)"
    by (rule BookmarkDB_update_absent)
next
  assume "os_get k s = None"
  then show "updateBookmark k p s = (Inl NotFound, s)"
    by (rule updateBookmark_absent)
qed

lemma os_get_oneStore: "os_get 1 oneStore = Some alphaRecord"
  by (simp add: os_get_def oneStore_def alphaRecord_def)

lemma os_get_oneStore_absent: "os_get 7 oneStore = None"
  by (simp add: os_get_def oneStore_def)

theorem update_merges_patch_witness:
  "os_get 1 oneStore = Some alphaRecord
   \<and> os_get 7 oneStore = None
   \<and> isValidUrl asciiBrowser (trim (js ''https://a.example/''))
   \<and> trim (js ''Alpha'') \<noteq> []
   \<and> os_get 1 (snd (updateBookmark 1 examplePatch oneStore)) =
       Some \<lparr>b_id = 1, b_name = js ''Beta'', b_url = js ''https://b.example/'',
             b_tags = [js ''tools''], b_createdAt = js ''2030-01-01 00:00''\<rparr>
   \<and> BookmarkDB_get 1 (snd (BookmarkDB_update 1 examplePatch oneStore)) =
       Some \<lparr>b_id = 1, b_name = js ''Beta'', b_url = js ''https://b.example/'',
             b_tags = [js ''tools''], b_createdAt = js ''2024-01-01 10:00''\<rparr>
   \<and> os_get 1 (st_db (snd (onFormSubmit asciiBrowser exampleNow ModeEdit 1
          (js ''https://a.example/'') (js ''Alpha'') (js ''dev'') [] oneState))) =
       Some \<lparr>b_id = 1, b_name = js ''Alpha'', b_url = js ''https://a.example/'',
             b_tags = [js ''dev''], b_createdAt = js ''2024-01-01 10:00''\<rparr>
   \<and> BookmarkDB_update 7 examplePatch oneStore = (Inl NotFound, oneStore)"
proof -
  have st: "st_db oneState = oneStore"
    by (simp add: oneState_def)
  have tr: "trim (js ''https://a.example/'') = js ''https://a.example/''"
    "trim (js ''Alpha'') = js ''Alpha''" "trim [] = []"
    by (simp_all add: trim_def js_def isWhiteSpace_def)
  have pt: "parseTags (js ''dev'') = [js ''dev'']"
    by (simp add: parseTags_def js_def trim_def isWhiteSpace_def)
  show ?thesis
    using update_merges_patch [of 1 oneStore alphaRecord examplePatch asciiBrowser "js ''https://a.example/''"
        "js ''Alpha''" oneState exampleNow "js ''dev''" "[]"]
      update_merges_patch [of 7 oneStore alphaRecord examplePatch asciiBrowser "js ''https://a.example/''"
        "js ''Alpha''" oneState exampleNow "js ''dev''" "[]"]
      os_get_oneStore os_get_oneStore_absent example_url_valid example_name_nonempty st pt
    by (simp add: tr alphaRecord_def examplePatch_def)
qed

text \<open>In script.js a patch with a \<^verbatim>\<open>createdAt\<close> does not change the stored one.\<close>

theorem BookmarkDB_update_ignores_createdAt:
  "d_createdAt examplePatch = Some (js ''2030-01-01 00:00'')
   \<and> map_option b_createdAt (BookmarkDB_get 1 (snd (BookmarkDB_update 1 examplePatch oneStore))) =
       Some (js ''2024-01-01 10:00'')
   \<and> js ''2024-01-01 10:00'' \<noteq> js ''2030-01-01 00:00''"
  by (simp add: BookmarkDB_get_def BookmarkDB_update_def os_get_def os_put_def oneStore_def
      examplePatch_def js_def Let_def)


section \<open>Validation\<close>

lemma new_URL_empty: "new_URL B [] = None"
  by (simp add: new_URL_def url_scheme_def)

lemma not_a_url_trim: "trim (js ''not a url'') = js ''not a url''"
  by (simp add: trim_def js_def isWhiteSpace_def)

lemma not_a_url: "new_URL B (js ''not a url'') = None"
  by (simp add: new_URL_def url_scheme_def js_def isAsciiAlpha_def isSchemeChar_def isDigit_def)

lemma isValidUrl_needs_URL: "new_URL B u = None \<Longrightarrow> \<not> isValidUrl B u"
  by (simp add: isValidUrl_def)

lemma handleFormSubmit_refuses:
  assumes "trim nameValue = [] \<or> trim urlValue = [] \<or> new_URL B (trim urlValue) = None"
  shows "handleFormSubmit B now nameValue urlValue tagsValue searchValue app = (Inl ValidationError, app)"
  using assms by (auto simp: handleFormSubmit_def Let_def)

lemma onFormSubmit_refuses:
  assumes "trim f_name = [] \<or> trim f_url = [] \<or> new_URL B (trim f_url) = None"
  shows "onFormSubmit B now mode i f_url f_name f_tags f_c st = (Inl ValidationError, st)"
proof (cases "isValidUrl B (trim f_url)")
  case False
  then show ?thesis by (simp add: onFormSubmit_def Let_def)
next
  case True
  then have "new_URL B (trim f_url) \<noteq> None" "trim f_url \<noteq> []"
    using isValidUrl_needs_URL [of B "trim f_url"] new_URL_empty [of B] by auto
  with assms have "trim f_name = []" by simp
  then show ?thesis by (simp add: onFormSubmit_def Let_def)
qed

text \<open>
  Claim C8: when the trimmed name is empty, the trimmed URL is empty, or \<^verbatim>\<open>new URL\<close>
  throws on the trimmed URL, the form handler of either implementation reports a
  validation error and returns the application, its store included, as it was; so it
  does for the URL \<^verbatim>\<open>"not a url"\<close>, which has no scheme.
\<close>

theorem invalid_input_is_refused:
  "(trim nameValue = [] \<or> trim urlValue = [] \<or> new_URL B (trim urlValue) = None \<longrightarrow>
      handleFormSubmit B now nameValue urlValue tagsValue searchValue app = (Inl ValidationError, app))
   \<and> (trim f_name = [] \<or> trim f_url = [] \<or> new_URL B (trim f_url) = None \<longrightarrow>
        onFormSubmit B now mode i f_url f_name f_tags f_c st = (Inl ValidationError, st))
   \<and> new_URL B (trim (js ''not a url'')) = None
   \<and> handleFormSubmit B now nameValue (js ''not a url'') tagsValue searchValue app =
       (Inl ValidationError, app)
   \<and> onFormSubmit B now mode i (js ''not a url'') f_name f_tags f_c st = (Inl ValidationError, st)"
proof -
  have n: "new_URL B (trim (js ''not a url'')) = None"
    by (simp add: not_a_url_trim not_a_url)
  show ?thesis
    using handleFormSubmit_refuses [of nameValue urlValue B now tagsValue searchValue app]
      handleFormSubmit_refuses [of nameValue "js ''not a url''" B now tagsValue searchValue app]
      onFormSubmit_refuses [of f_name f_url B now mode i f_tags f_c st]
      onFormSubmit_refuses [of f_name "js ''not a url''" B now mode i f_tags f_c st] n
    by blast
qed

theorem invalid_input_is_refused_witness:
  "trim (js ''  '') = []
   \<and> new_URL asciiBrowser (trim (js ''not a url'')) = None
   \<and> handleFormSubmit asciiBrowser exampleNow (js ''  '') (js ''https://a.example/'') [] []
        newBookmarkApp = (Inl ValidationError, newBookmarkApp)
   \<and> onFormSubmit asciiBrowser exampleNow ModeAdd 0 (js ''not a url'') (js ''Alpha'') [] []
        emptyState = (Inl ValidationError, emptyState)
   \<and> st_db (snd (onFormSubmit asciiBrowser exampleNow ModeAdd 0 (js ''not a url'') (js ''Alpha'')
        [] [] emptyState)) = emptyStore"
proof -
  have a: "trim (js ''  '') = []"
    by (simp add: trim_def js_def isWhiteSpace_def)
  have b: "new_URL asciiBrowser (trim (js ''not a url'')) = None"
    by (simp add: not_a_url_trim not_a_url)
  show ?thesis
    using invalid_input_is_refused [of "js ''  ''" "js ''https://a.example/''" asciiBrowser exampleNow "[]" "[]"
        newBookmarkApp "js ''Alpha''" "js ''not a url''" ModeAdd 0 "[]" "[]" emptyState] a b
    by (simp add: emptyState_def)
qed

section \<open>Sorting\<close>







lemma mset_js_insert: "mset (js_insert cmp x ys) = add_mset x (mset ys)"
  by (induction ys) auto

lemma mset_js_sort: "mset (js_sort cmp xs) = mset xs"
  by (induction xs) (simp_all add: js_sort_def mset_js_insert)

lemma mset_Array_sort: "mset (Array_sort B cmp xs) = mset xs"
  by (simp add: Array_sort_def Let_def mset_js_sort)

lemma SortCompare_diff:
  fixes t :: "'a \<Rightarrow> int"
  assumes "\<forall>a\<in>set xs. \<forall>b\<in>set xs. cmp a b = Some (t b - t a)"
  shows "\<forall>a\<in>set xs. \<forall>b\<in>set xs. SortCompare cmp a b = t b - t a"
  using assms by (simp add: SortCompare_def nan_as_zero_def)

lemma neverNaN_diff:
  fixes t :: "'a \<Rightarrow> int"
  assumes "\<forall>a\<in>set xs. \<forall>b\<in>set xs. cmp a b = Some (t b - t a)"
  shows "neverNaN cmp xs"
  using assms by (simp add: neverNaN_def list_all_iff)

lemma consistent_diff:
  fixes t :: "'a \<Rightarrow> int"
  assumes "\<forall>a\<in>set xs. \<forall>b\<in>set xs. cmp a b = t b - t a"
  shows "consistent cmp xs"
  unfolding consistent_def list_all_iff
proof (intro ballI conjI impI)
  fix a assume "a \<in> set xs"
  with assms show "cmp a a = 0" by simp
next
  fix a b assume "a \<in> set xs" "b \<in> set xs" "cmp a b = 0"
  with assms show "cmp b a = 0" by simp
next
  fix a b c assume "a \<in> set xs" "b \<in> set xs" "c \<in> set xs" "cmp a b = 0 \<and> cmp b c = 0"
  with assms show "cmp a c = 0" by simp
next
  fix a b c assume "a \<in> set xs" "b \<in> set xs" "c \<in> set xs" "cmp a b < 0 \<and> cmp b c < 0"
  with assms show "cmp a c < 0" by simp
next
  fix a b c assume "a \<in> set xs" "b \<in> set xs" "c \<in> set xs" "0 < cmp a b \<and> 0 < cmp b c"
  with assms show "0 < cmp a c" by simp
qed

lemma Array_sort_diff:
  fixes t :: "bookmark \<Rightarrow> int"
  assumes "\<forall>a\<in>set xs. \<forall>b\<in>set xs. cmp a b = Some (t b - t a)"
  shows "Array_sort B cmp xs = js_sort (SortCompare cmp) xs"
  using consistent_diff [OF SortCompare_diff [OF assms]] neverNaN_diff [OF assms]
  by (simp add: Array_sort_def Let_def)


lemma newestFirst_diff:
  assumes "list_all (\<lambda>r. dateParse B (b_createdAt r) \<noteq> None) xs"
  shows "\<forall>a\<in>set xs. \<forall>b\<in>set xs. newestFirst B a b = Some (timeOf B b - timeOf B a)"
proof (intro ballI)
  fix a b assume "a \<in> set xs" "b \<in> set xs"
  with assms have "dateParse B (b_createdAt a) \<noteq> None" "dateParse B (b_createdAt b) \<noteq> None"
    by (simp_all add: list_all_iff)
  then obtain x y where "dateParse B (b_createdAt a) = Some x" "dateParse B (b_createdAt b) = Some y"
    by auto
  then show "newestFirst B a b = Some (timeOf B b - timeOf B a)"
    by (simp add: newestFirst_def timeOf_def num_sub_def nan_as_zero_def)
qed

lemma createdAtDesc_diff:
  assumes "list_all (\<lambda>r. getTime B (b_createdAt r) \<noteq> None) xs"
  shows "\<forall>a\<in>set xs. \<forall>b\<in>set xs. createdAtDesc B a b = Some (timeOrZero B b - timeOrZero B a)"
proof (intro ballI)
  fix a b assume "a \<in> set xs" "b \<in> set xs"
  with assms have "getTime B (b_createdAt a) \<noteq> None" "getTime B (b_createdAt b) \<noteq> None"
    by (simp_all add: list_all_iff)
  then obtain x y where "getTime B (b_createdAt a) = Some x" "getTime B (b_createdAt b) = Some y"
    by auto
  then show "createdAtDesc B a b = Some (timeOrZero B b - timeOrZero B a)"
    by (simp add: createdAtDesc_def timeOrZero_def num_sub_def nan_as_zero_def Let_def)
qed

lemma loadBookmarks_sorted:
  "filteredBookmarks (loadBookmarks B q app) =
     Array_sort B (newestFirst B)
       (if q \<noteq> [] then BookmarkDB_search B q (app_db app) else BookmarkDB_getAll (app_db app))"
  by (simp add: loadBookmarks_def Let_def)

lemma st_items_renderList: "st_items (fst (renderList st)) = st_items st"
  by (simp add: renderList_def Let_def)

lemma refreshList_sorted:
  "st_items (fst (refreshList B st)) =
     Array_sort B (createdAtDesc B)
       (if st_keyword st \<noteq> []
        then filter (\<lambda>x. matchesKeyword B x (st_keyword st)) (getAllBookmarks (st_db st))
        else getAllBookmarks (st_db st))"
  by (simp add: refreshList_def Let_def st_items_renderList)


lemma digitsValue_stamps:
  "digitsValue (js ''2024-01-01 10:00'') = Some 202401011000"
  "digitsValue (js ''2024-01-01 10:01'') = Some 202401011001"
  "digitsValue (js ''2024-01-01 10:02'') = Some 202401011002"
  by (simp_all add: digitsValue_def js_def isDigit_def)


lemma example_parse:
  "list_all (\<lambda>r. dateParse asciiBrowser (b_createdAt r) \<noteq> None) [alphaRecord, betaRecord, gammaRecord]"
  "list_all (\<lambda>r. getTime asciiBrowser (b_createdAt r) \<noteq> None) [alphaRecord, betaRecord, gammaRecord]"
  by (simp_all add: getTime_def asciiBrowser_def alphaRecord_def betaRecord_def gammaRecord_def
      digitsValue_stamps)

lemma example_distinct:
  "alphaRecord \<noteq> gammaRecord" "betaRecord \<noteq> gammaRecord" "alphaRecord \<noteq> betaRecord"
  by (simp_all add: alphaRecord_def betaRecord_def gammaRecord_def)









text \<open>Scenario A in both implementations: the three records come back newest first.\<close>

lemma scenario_A:
  "map b_name (filteredBookmarks (loadBookmarks asciiBrowser [] (newBookmarkApp\<lparr>app_db := threeStore\<rparr>)))
     = [js ''Gamma'', js ''Beta'', js ''Alpha'']"
  "map b_name (st_items (fst (refreshList asciiBrowser threeState)))
     = [js ''Gamma'', js ''Beta'', js ''Alpha'']"
proof -
  have n: "SortCompare (newestFirst asciiBrowser) gammaRecord betaRecord = -1"
    "SortCompare (newestFirst asciiBrowser) gammaRecord alphaRecord = -2"
    "SortCompare (newestFirst asciiBrowser) betaRecord gammaRecord = 1"
    "SortCompare (newestFirst asciiBrowser) betaRecord alphaRecord = -1"
    "SortCompare (newestFirst asciiBrowser) alphaRecord betaRecord = 1"
    "SortCompare (newestFirst asciiBrowser) alphaRecord gammaRecord = 2"
    by (simp_all add: SortCompare_def newestFirst_def asciiBrowser_def alphaRecord_def
        betaRecord_def gammaRecord_def digitsValue_stamps num_sub_def nan_as_zero_def)
  have c: "SortCompare (createdAtDesc asciiBrowser) gammaRecord betaRecord = -1"
    "SortCompare (createdAtDesc asciiBrowser) gammaRecord alphaRecord = -2"
    "SortCompare (createdAtDesc asciiBrowser) betaRecord gammaRecord = 1"
    "SortCompare (createdAtDesc asciiBrowser) betaRecord alphaRecord = -1"
    "SortCompare (createdAtDesc asciiBrowser) alphaRecord betaRecord = 1"
    "SortCompare (createdAtDesc asciiBrowser) alphaRecord gammaRecord = 2"
    by (simp_all add: SortCompare_def createdAtDesc_def getTime_def asciiBrowser_def
        alphaRecord_def betaRecord_def gammaRecord_def digitsValue_stamps num_sub_def
        nan_as_zero_def Let_def)
      (simp_all add: js_def)
  have names: "b_name alphaRecord = js ''Alpha''" "b_name betaRecord = js ''Beta''"
    "b_name gammaRecord = js ''Gamma''"
    by (simp_all add: alphaRecord_def betaRecord_def gammaRecord_def)
  have s1: "Array_sort asciiBrowser (newestFirst asciiBrowser) [alphaRecord, betaRecord, gammaRecord] =
      js_sort (SortCompare (newestFirst asciiBrowser)) [alphaRecord, betaRecord, gammaRecord]"
    by (rule Array_sort_diff [OF newestFirst_diff [OF example_parse(1)]])
  have s2: "Array_sort asciiBrowser (createdAtDesc asciiBrowser) [alphaRecord, betaRecord, gammaRecord] =
      js_sort (SortCompare (createdAtDesc asciiBrowser)) [alphaRecord, betaRecord, gammaRecord]"
    by (rule Array_sort_diff [OF createdAtDesc_diff [OF example_parse(2)]])
  show "map b_name (filteredBookmarks (loadBookmarks asciiBrowser [] (newBookmarkApp\<lparr>app_db := threeStore\<rparr>)))
     = [js ''Gamma'', js ''Beta'', js ''Alpha'']"
    by (simp add: loadBookmarks_sorted BookmarkDB_getAll_def os_getAll_def threeStore_def
        s1 js_sort_def n names)
  show "map b_name (st_items (fst (refreshList asciiBrowser threeState)))
     = [js ''Gamma'', js ''Beta'', js ''Alpha'']"
    by (simp add: refreshList_sorted getAllBookmarks_def os_getAll_def threeStore_def
        threeState_def s2 js_sort_def c names)
qed

text \<open>An inconsistent comparator on four records: the engine's binary insertion leaves the
  ids in the order 2, 4, 1, 3, where a linear insertion would leave 2, 1, 3, 4.\<close>

lemma four_sorted:
  "\<not> consistent (SortCompare (newestFirst asciiBrowser)) fourRecords"
  "map b_id (Array_sort asciiBrowser (newestFirst asciiBrowser) fourRecords) = [2, 4, 1, 3]"
  "map b_id (js_sort (SortCompare (newestFirst asciiBrowser)) fourRecords) = [2, 1, 3, 4]"
proof -
  define a where "a = alphaRecord"
  define b where "b = betaRecord\<lparr>b_createdAt := js ''2024-01-01 10:05''\<rparr>"
  define c where "c = gammaRecord\<lparr>b_createdAt := js ''garbage''\<rparr>"
  define d where "d = gammaRecord\<lparr>b_id := 4\<rparr>"
  have f: "fourRecords = [a, b, c, d]"
    by (simp add: fourRecords_def a_def b_def c_def d_def)
  have p: "dateParse asciiBrowser (b_createdAt a) = Some 202401011000"
    "dateParse asciiBrowser (b_createdAt b) = Some 202401011005"
    "dateParse asciiBrowser (b_createdAt c) = None"
    "dateParse asciiBrowser (b_createdAt d) = Some 202401011002"
    by (simp_all add: a_def b_def c_def d_def asciiBrowser_def alphaRecord_def betaRecord_def
        gammaRecord_def digitsValue_def js_def isDigit_def)
  define cmp where "cmp = SortCompare (newestFirst asciiBrowser)"
  have n: "cmp a a = 0" "cmp a b = 5" "cmp a c = 0" "cmp a d = 2"
    "cmp b a = -5" "cmp b b = 0" "cmp b c = 0" "cmp b d = -3"
    "cmp c a = 0" "cmp c b = 0" "cmp c c = 0" "cmp c d = 0"
    "cmp d a = -2" "cmp d b = 3" "cmp d c = 0" "cmp d d = 0"
    by (simp_all add: cmp_def SortCompare_def newestFirst_def p num_sub_def nan_as_zero_def)
  have ids: "b_id a = 1" "b_id b = 2" "b_id c = 3" "b_id d = 4"
    by (simp_all add: a_def b_def c_def d_def alphaRecord_def betaRecord_def gammaRecord_def)
  show nc: "\<not> consistent (SortCompare (newestFirst asciiBrowser)) fourRecords"
    unfolding cmp_def [symmetric] by (simp add: consistent_def f n)
  have r: "countAndMakeRun cmp [a, b, c, d] = ([b, a, c, d], 2)"
    by (simp add: countAndMakeRun_def Let_def n)
  have i1: "binaryInsert cmp [b, a, c, d] 2 = [b, a, c, d]"
    by (simp add: binaryInsert_def Let_def binarySearch.simps n)
  have i2: "binaryInsert cmp [b, a, c, d] 3 = [b, d, a, c]"
    by (simp add: binaryInsert_def Let_def binarySearch.simps n)
  have s1: "binaryInsert cmp [b, a, c, d] (Suc (Suc 0)) = [b, a, c, d]"
    using i1 by (simp add: numeral_2_eq_2)
  have s2: "binaryInsert cmp [b, a, c, d] (Suc (Suc (Suc 0))) = [b, d, a, c]"
    using i2 by (simp add: numeral_3_eq_3)
  have v: "v8_sort cmp [a, b, c, d] = [b, d, a, c]"
    by (simp add: v8_sort_def Let_def r numeral_2_eq_2 s1 s2)
  have "arraySort asciiBrowser = v8_sort"
    by (simp add: asciiBrowser_def)
  then have "Array_sort asciiBrowser (newestFirst asciiBrowser) fourRecords = [b, d, a, c]"
    using nc v by (simp add: Array_sort_def Let_def f cmp_def)
  then show "map b_id (Array_sort asciiBrowser (newestFirst asciiBrowser) fourRecords) = [2, 4, 1, 3]"
    by (simp add: ids)
  show "map b_id (js_sort (SortCompare (newestFirst asciiBrowser)) fourRecords) = [2, 1, 3, 4]"
    unfolding cmp_def [symmetric] by (simp add: js_sort_def f n ids)
qed

section \<open>Export\<close>






lemma threeStore_all:
  "BookmarkDB_getAll threeStore = [alphaRecord, betaRecord, gammaRecord]"
  "getAllBookmarks threeStore = [alphaRecord, betaRecord, gammaRecord]"
  by (simp_all add: BookmarkDB_getAll_def getAllBookmarks_def os_getAll_def threeStore_def)



section \<open>Pagination\<close>

lemma js_slice_page:
  "js_slice (int a) (int a + int p) xs = take p (drop a xs)"
proof (cases "a \<le> length xs")
  case True
  then show ?thesis
    by (auto simp: js_slice_def Let_def min_def)
next
  case False
  then show ?thesis
    by (auto simp: js_slice_def Let_def min_def)
qed

lemma concat_pages: "concat (map (\<lambda>i. take p (drop (i * p) xs)) [0..<n]) = take (n * p) xs"
proof (induction n)
  case 0
  then show ?case by simp
next
  case (Suc n)
  have "take (n * p) xs @ take p (drop (n * p) xs) = take (n * p + p) xs"
    by (simp add: take_add)
  with Suc show ?case by (simp add: add.commute)
qed

lemma ceil_covers: "0 < p \<Longrightarrow> n \<le> (n + p - 1) div p * (p::nat)"
proof -
  assume p: "0 < p"
  have "n + p - 1 = (n + p - 1) div p * p + (n + p - 1) mod p"
    by simp
  moreover have "(n + p - 1) mod p \<le> p - 1"
    using p by (simp add: less_Suc_eq_le [symmetric])
  ultimately have "n + p - 1 \<le> (n + p - 1) div p * p + (p - 1)"
    by linarith
  then show ?thesis
    using p by simp
qed

lemma ceil_tight: "0 < p \<Longrightarrow> 0 < n \<Longrightarrow> ((n + p - 1) div p - 1) * p < (n::nat)"
proof -
  assume p: "0 < p" and n: "0 < n"
  have "(n + p - 1) div p * p \<le> n + p - 1"
    by simp
  then have "(n + p - 1) div p * p - p \<le> n - 1"
    using p by linarith
  moreover have "((n + p - 1) div p - 1) * p = (n + p - 1) div p * p - p"
    by (simp add: diff_mult_distrib)
  ultimately show ?thesis
    using n by simp
qed

lemma ceil_div_covers: "0 < p \<Longrightarrow> n \<le> nat (ceil_div n p) * p"
  using ceil_covers [of p n] by (simp add: ceil_div_def)

lemma ceil_div_ceiling: "0 < p \<Longrightarrow> ceil_div n p = \<lceil>real n / real p\<rceil>"
proof -
  assume p: "0 < p"
  show ?thesis
  proof (cases "n = 0")
    case True
    then show ?thesis using p by (simp add: ceil_div_def)
  next
    case False
    then have n: "0 < n" by simp
    define c where "c = (n + p - 1) div p"
    have up: "real n \<le> real c * real p"
      using ceil_covers [OF p, of n] unfolding c_def by (metis of_nat_le_iff of_nat_mult)
    have lo: "real (c - 1) * real p < real n"
      using ceil_tight [OF p n] unfolding c_def by (metis of_nat_less_iff of_nat_mult)
    have cpos: "0 < c"
      using ceil_covers [OF p, of n] n unfolding c_def by (cases "(n + p - 1) div p") auto
    have rp: "0 < real p" using p by simp
    have a: "real n / real p \<le> real_of_int (int c)"
      using up rp by (simp add: pos_divide_le_eq)
    have "real c - 1 < real n / real p"
      using lo rp cpos by (simp add: pos_less_divide_eq of_nat_diff)
    then have b: "real_of_int (int c) - 1 < real n / real p"
      by simp
    have "\<lceil>real n / real p\<rceil> = int c"
      using b a by (rule ceiling_unique)
    then show ?thesis
      by (simp add: ceil_div_def c_def)
  qed
qed


lemma take_drop_disjoint:
  assumes "distinct xs" and "a + p \<le> b"
  shows "set (take p (drop a xs)) \<inter> set (take q (drop b xs)) = {}"
proof -
  have "distinct (take (a + p) xs @ drop (a + p) xs)"
    using assms(1) by simp
  then have d: "set (take (a + p) xs) \<inter> set (drop (a + p) xs) = {}"
    by (simp only: distinct_append)
  have "take p (drop a xs) = drop a (take (a + p) xs)"
    by (simp add: drop_take)
  then have l: "set (take p (drop a xs)) \<subseteq> set (take (a + p) xs)"
    using set_drop_subset [of a "take (a + p) xs"] by simp
  have "set (take q (drop b xs)) \<subseteq> set (drop b xs)"
    by (rule set_take_subset)
  moreover have "set (drop b xs) \<subseteq> set (drop (a + p) xs)"
    using assms(2) by (rule set_drop_subset_set_drop)
  ultimately show ?thesis
    using d l by blast
qed

lemma pages_disjoint:
  assumes "distinct xs" and "i \<noteq> j"
  shows "set (take p (drop (i * p) xs)) \<inter> set (take p (drop (j * p) xs)) = {}"
proof (cases "i < j")
  case True
  then have "Suc i * p \<le> j * p"
    by (intro mult_le_mono1) simp
  then have "i * p + p \<le> j * p"
    by (simp add: add.commute)
  with assms(1) show ?thesis
    by (rule take_drop_disjoint)
next
  case False
  with assms(2) have "j < i" by simp
  then have "Suc j * p \<le> i * p"
    by (intro mult_le_mono1) simp
  then have "j * p + p \<le> i * p"
    by (simp add: add.commute)
  with assms(1) have "set (take p (drop (j * p) xs)) \<inter> set (take p (drop (i * p) xs)) = {}"
    by (rule take_drop_disjoint)
  then show ?thesis by blast
qed

lemma pageBookmarks_page:
  "pageBookmarks (app\<lparr>currentPage := int i + 1\<rparr>) =
     take (itemsPerPage app) (drop (i * itemsPerPage app) (filteredBookmarks app))"
  using js_slice_page [of "i * itemsPerPage app" "itemsPerPage app" "filteredBookmarks app"]
  by (simp add: pageBookmarks_def Let_def)

lemma pageBookmarks_concat:
  assumes "0 < itemsPerPage app"
  shows "concat (map (\<lambda>i. pageBookmarks (app\<lparr>currentPage := int i + 1\<rparr>)) [0..<nat (totalPages app)])
         = filteredBookmarks app"
proof -
  have "length (filteredBookmarks app) \<le> nat (totalPages app) * itemsPerPage app"
    using ceil_div_covers [OF assms] by (simp add: totalPages_def)
  then show ?thesis
    by (simp add: pageBookmarks_page concat_pages)
qed

lemma goToPage_cases:
  "(page < 1 \<or> page > totalPages app \<longrightarrow> goToPage page app = app)
   \<and> (1 \<le> page \<and> page \<le> totalPages app \<longrightarrow> goToPage page app = app\<lparr>currentPage := page\<rparr>)"
  by (auto simp: goToPage_def)

lemma renderList_page:
  "st_page (fst (renderList st)) =
     (if st_page st > max 1 (ceil_div (length (st_items st)) PAGE_SIZE)
      then max 1 (ceil_div (length (st_items st)) PAGE_SIZE) else st_page st)"
  by (simp add: renderList_def Let_def)

lemma renderList_in_range:
  assumes "\<not> st_page st > max 1 (ceil_div (length (st_items st)) PAGE_SIZE)"
  shows "snd (renderList st) =
           js_slice ((st_page st - 1) * int PAGE_SIZE)
             ((st_page st - 1) * int PAGE_SIZE + int PAGE_SIZE) (st_items st)"
  using assms by (auto simp: renderList_def Let_def)

lemma renderList_slice:
  assumes "int i + 1 \<le> max 1 (ceil_div (length (st_items st)) PAGE_SIZE)"
  shows "snd (renderList (st\<lparr>st_page := int i + 1\<rparr>)) =
           take PAGE_SIZE (drop (i * PAGE_SIZE) (st_items st))"
proof -
  let ?st = "st\<lparr>st_page := int i + 1\<rparr>"
  have sel: "st_page ?st = int i + 1" "st_items ?st = st_items st"
    by simp_all
  have "\<not> st_page ?st > max 1 (ceil_div (length (st_items ?st)) PAGE_SIZE)"
    unfolding sel using assms by linarith
  then have "snd (renderList ?st) =
           js_slice ((st_page ?st - 1) * int PAGE_SIZE)
             ((st_page ?st - 1) * int PAGE_SIZE + int PAGE_SIZE) (st_items ?st)"
    by (rule renderList_in_range)
  also have "\<dots> = js_slice (int (i * PAGE_SIZE)) (int (i * PAGE_SIZE) + int PAGE_SIZE) (st_items st)"
    unfolding sel by simp
  also have "\<dots> = take PAGE_SIZE (drop (i * PAGE_SIZE) (st_items st))"
    by (rule js_slice_page)
  finally show ?thesis .
qed

lemma renderList_clamp:
  assumes "st_page st > max 1 (ceil_div (length (st_items st)) PAGE_SIZE)"
  shows "renderList st =
           renderList (st\<lparr>st_page := max 1 (ceil_div (length (st_items st)) PAGE_SIZE)\<rparr>)"
  using assms by (simp add: renderList_def Let_def)

lemma renderList_concat:
  "concat (map (\<lambda>i. snd (renderList (st\<lparr>st_page := int i + 1\<rparr>)))
       [0..<nat (max 1 (ceil_div (length (st_items st)) PAGE_SIZE))])
   = st_items st"
proof -
  let ?n = "nat (max 1 (ceil_div (length (st_items st)) PAGE_SIZE))"
  have "\<forall>i\<in>set [0..<?n]. snd (renderList (st\<lparr>st_page := int i + 1\<rparr>)) =
           take PAGE_SIZE (drop (i * PAGE_SIZE) (st_items st))"
  proof
    fix i assume "i \<in> set [0..<?n]"
    then have "int i + 1 \<le> max 1 (ceil_div (length (st_items st)) PAGE_SIZE)"
      by simp
    then show "snd (renderList (st\<lparr>st_page := int i + 1\<rparr>)) =
           take PAGE_SIZE (drop (i * PAGE_SIZE) (st_items st))"
      by (rule renderList_slice)
  qed
  then have m: "map (\<lambda>i. snd (renderList (st\<lparr>st_page := int i + 1\<rparr>))) [0..<?n] =
        map (\<lambda>i. take PAGE_SIZE (drop (i * PAGE_SIZE) (st_items st))) [0..<?n]"
    by (intro map_cong) simp_all
  have l: "length (st_items st) \<le> ?n * PAGE_SIZE"
  proof -
    have "length (st_items st) \<le> nat (ceil_div (length (st_items st)) PAGE_SIZE) * PAGE_SIZE"
      by (rule ceil_div_covers) (simp add: PAGE_SIZE_def)
    also have "\<dots> \<le> ?n * PAGE_SIZE"
      by (intro mult_le_mono1) simp
    finally show ?thesis .
  qed
  show ?thesis
    unfolding m concat_pages using l by simp
qed


text \<open>
  Claim C6, as the code has it. In script.js, for a positive page size, the number of pages
  is the ceiling of the number of filtered records over the page size, the slices of the
  pages 1 to that number give the filtered list back when concatenated, and the slices of
  two different pages of a list without repetition are disjoint; \<^verbatim>\<open>goToPage\<close> moves to a
  page from 1 to the number of pages and ignores every other request, leaving the
  current page. In the second implementation the page size is 12 and the number of pages
  is that ceiling but at least 1; \<^verbatim>\<open>renderList\<close> replaces a page number above the number
  of pages by the last page, shows what it shows for the last page, and leaves every
  other page number as it is; the slices of the pages concatenate to the list and are
  disjoint in the same way.
\<close>

theorem pagination_slices_and_bounds:
  "(0 < itemsPerPage app \<longrightarrow>
      totalPages app = \<lceil>real (length (filteredBookmarks app)) / real (itemsPerPage app)\<rceil> \<and>
      concat (map (\<lambda>i. pageBookmarks (app\<lparr>currentPage := int i + 1\<rparr>)) [0..<nat (totalPages app)])
        = filteredBookmarks app)
   \<and> (distinct (filteredBookmarks app) \<and> i \<noteq> j \<longrightarrow>
        set (pageBookmarks (app\<lparr>currentPage := int i + 1\<rparr>)) \<inter>
        set (pageBookmarks (app\<lparr>currentPage := int j + 1\<rparr>)) = {})
   \<and> (page < 1 \<or> page > totalPages app \<longrightarrow> goToPage page app = app)
   \<and> (1 \<le> page \<and> page \<le> totalPages app \<longrightarrow> goToPage page app = app\<lparr>currentPage := page\<rparr>)
   \<and> ceil_div (length (st_items st)) PAGE_SIZE = \<lceil>real (length (st_items st)) / 12\<rceil>
   \<and> st_page (fst (renderList st)) =
       (if st_page st > max 1 (ceil_div (length (st_items st)) PAGE_SIZE)
        then max 1 (ceil_div (length (st_items st)) PAGE_SIZE) else st_page st)
   \<and> (st_page st > max 1 (ceil_div (length (st_items st)) PAGE_SIZE) \<longrightarrow>
        renderList st =
          renderList (st\<lparr>st_page := max 1 (ceil_div (length (st_items st)) PAGE_SIZE)\<rparr>))
   \<and> concat (map (\<lambda>i. snd (renderList (st\<lparr>st_page := int i + 1\<rparr>)))
         [0..<nat (max 1 (ceil_div (length (st_items st)) PAGE_SIZE))]) = st_items st
   \<and> (distinct (st_items st) \<and> i \<noteq> j \<and>
       int i + 1 \<le> max 1 (ceil_div (length (st_items st)) PAGE_SIZE) \<and>
       int j + 1 \<le> max 1 (ceil_div (length (st_items st)) PAGE_SIZE) \<longrightarrow>
        set (snd (renderList (st\<lparr>st_page := int i + 1\<rparr>))) \<inter>
        set (snd (renderList (st\<lparr>st_page := int j + 1\<rparr>))) = {})"
proof (intro conjI impI)
  assume p: "0 < itemsPerPage app"
  show "totalPages app = \<lceil>real (length (filteredBookmarks app)) / real (itemsPerPage app)\<rceil>"
    using ceil_div_ceiling [OF p] by (simp add: totalPages_def)
  show "concat (map (\<lambda>i. pageBookmarks (app\<lparr>currentPage := int i + 1\<rparr>)) [0..<nat (totalPages app)])
        = filteredBookmarks app"
    using p by (rule pageBookmarks_concat)
next
  assume "distinct (filteredBookmarks app) \<and> i \<noteq> j"
  then show "set (pageBookmarks (app\<lparr>currentPage := int i + 1\<rparr>)) \<inter>
        set (pageBookmarks (app\<lparr>currentPage := int j + 1\<rparr>)) = {}"
    by (simp add: pageBookmarks_page pages_disjoint)
next
  assume "page < 1 \<or> page > totalPages app"
  then show "goToPage page app = app"
    using goToPage_cases [of page app] by blast
next
  assume "1 \<le> page \<and> page \<le> totalPages app"
  then show "goToPage page app = app\<lparr>currentPage := page\<rparr>"
    using goToPage_cases [of page app] by blast
next
  show "ceil_div (length (st_items st)) PAGE_SIZE = \<lceil>real (length (st_items st)) / 12\<rceil>"
    using ceil_div_ceiling [of PAGE_SIZE "length (st_items st)"] by (simp add: PAGE_SIZE_def)
  show "st_page (fst (renderList st)) =
       (if st_page st > max 1 (ceil_div (length (st_items st)) PAGE_SIZE)
        then max 1 (ceil_div (length (st_items st)) PAGE_SIZE) else st_page st)"
    by (rule renderList_page)
  show "concat (map (\<lambda>i. snd (renderList (st\<lparr>st_page := int i + 1\<rparr>)))
         [0..<nat (max 1 (ceil_div (length (st_items st)) PAGE_SIZE))]) = st_items st"
    by (rule renderList_concat)
next
  assume "st_page st > max 1 (ceil_div (length (st_items st)) PAGE_SIZE)"
  then show "renderList st =
          renderList (st\<lparr>st_page := max 1 (ceil_div (length (st_items st)) PAGE_SIZE)\<rparr>)"
    by (rule renderList_clamp)
next
  assume a: "distinct (st_items st) \<and> i \<noteq> j \<and>
       int i + 1 \<le> max 1 (ceil_div (length (st_items st)) PAGE_SIZE) \<and>
       int j + 1 \<le> max 1 (ceil_div (length (st_items st)) PAGE_SIZE)"
  then have "snd (renderList (st\<lparr>st_page := int i + 1\<rparr>)) =
           take PAGE_SIZE (drop (i * PAGE_SIZE) (st_items st))"
    and "snd (renderList (st\<lparr>st_page := int j + 1\<rparr>)) =
           take PAGE_SIZE (drop (j * PAGE_SIZE) (st_items st))"
    by (simp_all only: renderList_slice)
  then show "set (snd (renderList (st\<lparr>st_page := int i + 1\<rparr>))) \<inter>
        set (snd (renderList (st\<lparr>st_page := int j + 1\<rparr>))) = {}"
    using a by (simp add: pages_disjoint)
qed

lemma thirteen_length: "length thirteenRecords = 13"
  by (simp add: thirteenRecords_def)

lemma app13_fields:
  "filteredBookmarks app13 = thirteenRecords" "itemsPerPage app13 = 12" "currentPage app13 = 1"
  by (simp_all add: app13_def newBookmarkApp_def)

lemma app13_totalPages: "totalPages app13 = 2"
  by (simp add: totalPages_def ceil_div_def app13_fields thirteen_length)

lemma state13_pages: "max 1 (ceil_div (length (st_items state13)) PAGE_SIZE) = 2"
  by (simp add: state13_def ceil_div_def PAGE_SIZE_def thirteen_length)

theorem pagination_slices_and_bounds_witness:
  "0 < itemsPerPage app13
   \<and> totalPages app13 = 2
   \<and> length (pageBookmarks (app13\<lparr>currentPage := 1\<rparr>)) = 12
   \<and> length (pageBookmarks (app13\<lparr>currentPage := 2\<rparr>)) = 1
   \<and> goToPage 3 app13 = app13
   \<and> goToPage 2 app13 = app13\<lparr>currentPage := 2\<rparr>
   \<and> st_page (fst (onPageClick 3 state13)) = 2
   \<and> length (snd (onPageClick 3 state13)) = 1
   \<and> length (snd (onPageClick 1 state13)) = 12"
proof -
  note t = pagination_slices_and_bounds [of app13 0 1 3 "state13\<lparr>st_page := 3\<rparr>"]
    and t2 = pagination_slices_and_bounds [of app13 0 1 2 state13]
  have sel: "st_items (state13\<lparr>st_page := 3\<rparr>) = st_items state13"
    "st_page (state13\<lparr>st_page := 3\<rparr>) = 3"
    by simp_all
  have g3: "goToPage 3 app13 = app13"
    using t app13_totalPages by simp
  have g2: "goToPage 2 app13 = app13\<lparr>currentPage := 2\<rparr>"
    using t2 app13_totalPages by simp
  have "st_page (fst (renderList (state13\<lparr>st_page := 3\<rparr>))) =
       (if st_page (state13\<lparr>st_page := 3\<rparr>)
             > max 1 (ceil_div (length (st_items (state13\<lparr>st_page := 3\<rparr>))) PAGE_SIZE)
        then max 1 (ceil_div (length (st_items (state13\<lparr>st_page := 3\<rparr>))) PAGE_SIZE)
        else st_page (state13\<lparr>st_page := 3\<rparr>))"
    using t by (elim conjE)
  then have c: "st_page (fst (onPageClick 3 state13)) = 2"
    unfolding sel state13_pages by (simp add: onPageClick_def)
  have "st_page (state13\<lparr>st_page := 3\<rparr>)
          > max 1 (ceil_div (length (st_items (state13\<lparr>st_page := 3\<rparr>))) PAGE_SIZE) \<longrightarrow>
        renderList (state13\<lparr>st_page := 3\<rparr>) =
          renderList (state13\<lparr>st_page := 3\<rparr>\<lparr>st_page :=
            max 1 (ceil_div (length (st_items (state13\<lparr>st_page := 3\<rparr>))) PAGE_SIZE)\<rparr>)"
    using t by (elim conjE)
  then have r: "renderList (state13\<lparr>st_page := 3\<rparr>) = renderList (state13\<lparr>st_page := 2\<rparr>)"
    unfolding sel state13_pages by simp
  have p1: "pageBookmarks (app13\<lparr>currentPage := 1\<rparr>) = take 12 thirteenRecords"
    using pageBookmarks_page [where app = app13 and i = 0] by (simp add: app13_fields)
  have p2: "pageBookmarks (app13\<lparr>currentPage := 2\<rparr>) = take 12 (drop 12 thirteenRecords)"
    using pageBookmarks_page [where app = app13 and i = 1] by (simp add: app13_fields)
  have s2: "snd (renderList (state13\<lparr>st_page := 2\<rparr>)) = take 12 (drop 12 thirteenRecords)"
    using renderList_slice [where st = state13 and i = 1] state13_pages by (simp add: PAGE_SIZE_def state13_def)
  have s1: "snd (renderList (state13\<lparr>st_page := 1\<rparr>)) = take 12 thirteenRecords"
    using renderList_slice [where st = state13 and i = 0] state13_pages by (simp add: PAGE_SIZE_def state13_def)
  show ?thesis
    using g3 g2 c r
    by (simp add: app13_totalPages app13_fields p1 p2 s1 s2 onPageClick_def thirteen_length)
qed

text \<open>Scenario C in script.js: with thirteen records and two pages, the request for page 3
  leaves page 1, and the request for page 0 leaves page 2.\<close>

theorem goToPage_ignores_out_of_range:
  "totalPages app13 = 2
   \<and> currentPage app13 = 1
   \<and> currentPage (goToPage 3 app13) = 1
   \<and> currentPage (goToPage 0 (goToPage 2 app13)) = 2"
  by (simp add: goToPage_def app13_totalPages app13_fields totalPages_def ceil_div_def
      thirteen_length)

section \<open>Keyword search\<close>

lemma str_includes_sublist: "str_includes s sub \<longleftrightarrow> sublist sub s"
  by (induction s) (simp_all add: sublist_Cons_right)

lemma all_dropWhile: "(\<forall>x\<in>set (dropWhile P s). P x) \<longleftrightarrow> (\<forall>x\<in>set s. P x)"
  by (induction s) auto

lemma trim_empty_iff: "trim s = [] \<longleftrightarrow> list_all isWhiteSpace s"
  by (simp add: trim_def dropWhile_eq_Nil_conv list_all_iff all_dropWhile)

lemma search_filter:
  "BookmarkDB_search B q s =
     filter (\<lambda>b. trim (toLowerCase B q) = [] \<or>
                 sublist (trim (toLowerCase B q)) (toLowerCase B (b_name b)) \<or>
                 sublist (trim (toLowerCase B q)) (toLowerCase B (b_url b)) \<or>
                 (\<exists>t\<in>set (b_tags b). sublist (trim (toLowerCase B q)) (toLowerCase B t)))
       (BookmarkDB_getAll s)"
  by (simp add: BookmarkDB_search_def Let_def str_includes_sublist list_ex_iff)

lemma search_blank:
  "list_all isWhiteSpace (toLowerCase B q) \<Longrightarrow> BookmarkDB_search B q s = BookmarkDB_getAll s"
  by (simp add: BookmarkDB_search_def Let_def trim_empty_iff)

lemma matchesKeyword_iff:
  "matchesKeyword B item kw \<longleftrightarrow>
     kw = [] \<or>
     sublist (toLowerCase B kw) (toLowerCase B (b_name item)) \<or>
     sublist (toLowerCase B kw) (toLowerCase B (b_url item)) \<or>
     sublist (toLowerCase B kw) (toLowerCase B (join [44] (b_tags item)))"
  by (simp add: matchesKeyword_def Let_def str_includes_sublist)

lemma onSearch_items:
  "st_items (fst (onSearch B q st)) =
     Array_sort B (createdAtDesc B)
       (if trim q \<noteq> []
        then filter (\<lambda>x. matchesKeyword B x (trim q)) (getAllBookmarks (st_db st))
        else getAllBookmarks (st_db st))"
  by (simp add: onSearch_def refreshList_sorted)

text \<open>
  Claim C4, as the code has it. \<^verbatim>\<open>BookmarkDB.search\<close> of script.js keeps, in the order
  of the store, exactly the records for which the keyword, lower-cased and then trimmed,
  is empty or is a substring of the lower-cased name, of the lower-cased URL, or of the
  lower-cased form of one of the tags; a keyword that is white space only keeps every
  record. \<^verbatim>\<open>matchesKeyword\<close> of the second implementation holds exactly when the keyword is
  empty or its lower-cased form is a substring of the lower-cased name, of the lower-cased
  URL, or of the lower-cased string of all tags joined by commas; the search of that
  implementation trims the keyword first, filters with it when it is not empty, and
  keeps every record when it is white space only; the list it shows is a rearrangement
  of exactly the records kept.
\<close>

theorem keyword_filter_exact:
  "BookmarkDB_search B q s =
     filter (\<lambda>b. trim (toLowerCase B q) = [] \<or>
                 sublist (trim (toLowerCase B q)) (toLowerCase B (b_name b)) \<or>
                 sublist (trim (toLowerCase B q)) (toLowerCase B (b_url b)) \<or>
                 (\<exists>t\<in>set (b_tags b). sublist (trim (toLowerCase B q)) (toLowerCase B t)))
       (BookmarkDB_getAll s)
   \<and> (list_all isWhiteSpace (toLowerCase B q) \<longrightarrow> BookmarkDB_search B q s = BookmarkDB_getAll s)
   \<and> (matchesKeyword B item kw \<longleftrightarrow>
        kw = [] \<or>
        sublist (toLowerCase B kw) (toLowerCase B (b_name item)) \<or>
        sublist (toLowerCase B kw) (toLowerCase B (b_url item)) \<or>
        sublist (toLowerCase B kw) (toLowerCase B (join [44] (b_tags item))))
   \<and> st_items (fst (onSearch B q st)) =
       Array_sort B (createdAtDesc B)
         (if trim q \<noteq> []
          then filter (\<lambda>x. matchesKeyword B x (trim q)) (getAllBookmarks (st_db st))
          else getAllBookmarks (st_db st))
   \<and> (list_all isWhiteSpace q \<longrightarrow>
        st_items (fst (onSearch B q st)) = Array_sort B (createdAtDesc B) (getAllBookmarks (st_db st)))
   \<and> mset (st_items (fst (onSearch B q st))) =
       mset (if trim q \<noteq> []
             then filter (\<lambda>x. matchesKeyword B x (trim q)) (getAllBookmarks (st_db st))
             else getAllBookmarks (st_db st))"
proof (intro conjI impI)
  show "BookmarkDB_search B q s =
     filter (\<lambda>b. trim (toLowerCase B q) = [] \<or>
                 sublist (trim (toLowerCase B q)) (toLowerCase B (b_name b)) \<or>
                 sublist (trim (toLowerCase B q)) (toLowerCase B (b_url b)) \<or>
                 (\<exists>t\<in>set (b_tags b). sublist (trim (toLowerCase B q)) (toLowerCase B t)))
       (BookmarkDB_getAll s)"
    by (rule search_filter)
  show "matchesKeyword B item kw \<longleftrightarrow>
        kw = [] \<or>
        sublist (toLowerCase B kw) (toLowerCase B (b_name item)) \<or>
        sublist (toLowerCase B kw) (toLowerCase B (b_url item)) \<or>
        sublist (toLowerCase B kw) (toLowerCase B (join [44] (b_tags item)))"
    by (rule matchesKeyword_iff)
  show "st_items (fst (onSearch B q st)) =
       Array_sort B (createdAtDesc B)
         (if trim q \<noteq> []
          then filter (\<lambda>x. matchesKeyword B x (trim q)) (getAllBookmarks (st_db st))
          else getAllBookmarks (st_db st))"
    by (rule onSearch_items)
next
  assume "list_all isWhiteSpace (toLowerCase B q)"
  then show "BookmarkDB_search B q s = BookmarkDB_getAll s"
    by (rule search_blank)
next
  assume "list_all isWhiteSpace q"
  then have "trim q = []"
    by (simp add: trim_empty_iff)
  then show "st_items (fst (onSearch B q st)) = Array_sort B (createdAtDesc B) (getAllBookmarks (st_db st))"
    by (simp add: onSearch_items)
next
  show "mset (st_items (fst (onSearch B q st))) =
       mset (if trim q \<noteq> []
             then filter (\<lambda>x. matchesKeyword B x (trim q)) (getAllBookmarks (st_db st))
             else getAllBookmarks (st_db st))"
    unfolding onSearch_items by (rule mset_Array_sort)
qed

lemma ascii_lower_examples:
  "toLowerCase asciiBrowser (js ''a,b'') = js ''a,b''"
  "toLowerCase asciiBrowser (js ''Site'') = js ''site''"
  "toLowerCase asciiBrowser (js ''https://s.example/'') = js ''https://s.example/''"
  "toLowerCase asciiBrowser (js ''xa'') = js ''xa''"
  "toLowerCase asciiBrowser (js ''by'') = js ''by''"
  "toLowerCase asciiBrowser (js ''xa,by'') = js ''xa,by''"
  "toLowerCase asciiBrowser (js ''SITE'') = js ''site''"
  "toLowerCase asciiBrowser (js ''   '') = js ''   ''"
  by (simp_all add: asciiBrowser_def js_def asciiLower_def)

lemma commaRecord_lower:
  "toLowerCase asciiBrowser (b_name commaRecord) = js ''site''"
  by (simp add: commaRecord_def asciiBrowser_def js_def asciiLower_def)

text \<open>In the second implementation the keyword \<^verbatim>\<open>a,b\<close> matches a record with the tags
  \<^verbatim>\<open>xa\<close> and \<^verbatim>\<open>by\<close>, though it is in no name, URL or single tag.\<close>

theorem matchesKeyword_spans_tags:
  "matchesKeyword asciiBrowser commaRecord (js ''a,b'')
   \<and> \<not> str_includes (toLowerCase asciiBrowser (b_name commaRecord)) (toLowerCase asciiBrowser (js ''a,b''))
   \<and> \<not> str_includes (toLowerCase asciiBrowser (b_url commaRecord)) (toLowerCase asciiBrowser (js ''a,b''))
   \<and> \<not> list_ex (\<lambda>t. str_includes (toLowerCase asciiBrowser t) (toLowerCase asciiBrowser (js ''a,b'')))
          (b_tags commaRecord)"
proof -
  have f: "toLowerCase asciiBrowser (b_name commaRecord) = js ''site''"
    "toLowerCase asciiBrowser (b_url commaRecord) = js ''https://s.example/''"
    "toLowerCase asciiBrowser (join [44] (b_tags commaRecord)) = js ''xa,by''"
    "b_tags commaRecord = [js ''xa'', js ''by'']"
    by (simp_all add: commaRecord_def asciiBrowser_def js_def asciiLower_def)
  have a: "str_includes (js ''xa,by'') (js ''a,b'')"
    by (simp add: js_def)
  have b: "\<not> str_includes (js ''site'') (js ''a,b'')"
    "\<not> str_includes (js ''https://s.example/'') (js ''a,b'')"
    "\<not> str_includes (js ''xa'') (js ''a,b'')"
    "\<not> str_includes (js ''by'') (js ''a,b'')"
    by (simp_all add: js_def)
  have k: "js ''a,b'' \<noteq> []"
    by (simp add: js_def)
  have c1: "matchesKeyword asciiBrowser commaRecord (js ''a,b'')"
    using a k by (simp add: matchesKeyword_def Let_def f(1-3) ascii_lower_examples)
  have c4: "\<not> list_ex (\<lambda>t. str_includes (toLowerCase asciiBrowser t) (toLowerCase asciiBrowser (js ''a,b'')))
          (b_tags commaRecord)"
    using b by (simp add: f(4) ascii_lower_examples)
  show ?thesis
    using c1 c4 b by (simp add: f(1,2) ascii_lower_examples)
qed

theorem keyword_filter_exact_witness:
  "list_all isWhiteSpace (toLowerCase asciiBrowser (js ''   ''))
   \<and> list_all isWhiteSpace (js ''   '')
   \<and> BookmarkDB_search asciiBrowser (js ''   '') threeStore = [alphaRecord, betaRecord, gammaRecord]
   \<and> BookmarkDB_search asciiBrowser (js '' TOOLS '') threeStore = [betaRecord]
   \<and> matchesKeyword asciiBrowser commaRecord (js ''SITE'')
   \<and> st_items (fst (onSearch asciiBrowser (js ''   '') threeState)) =
       Array_sort asciiBrowser (createdAtDesc asciiBrowser) [alphaRecord, betaRecord, gammaRecord]"
proof -
  have w: "list_all isWhiteSpace (js ''   '')"
    by (simp add: js_def isWhiteSpace_def)
  have kw: "trim (toLowerCase asciiBrowser (js '' TOOLS '')) = js ''tools''"
    by (simp add: trim_def asciiBrowser_def js_def asciiLower_def isWhiteSpace_def)
  have ne: "js ''tools'' \<noteq> []" "js ''SITE'' \<noteq> []"
    by (simp_all add: js_def)
  have lowers:
    "toLowerCase asciiBrowser (b_name alphaRecord) = js ''alpha''"
    "toLowerCase asciiBrowser (b_name betaRecord) = js ''beta''"
    "toLowerCase asciiBrowser (b_name gammaRecord) = js ''gamma''"
    "toLowerCase asciiBrowser (b_url alphaRecord) = js ''https://a.example/''"
    "toLowerCase asciiBrowser (b_url betaRecord) = js ''https://b.example/''"
    "toLowerCase asciiBrowser (b_url gammaRecord) = js ''https://c.example/''"
    "toLowerCase asciiBrowser (js ''dev'') = js ''dev''"
    "toLowerCase asciiBrowser (js ''tools'') = js ''tools''"
    by (simp_all add: asciiBrowser_def js_def asciiLower_def alphaRecord_def betaRecord_def
        gammaRecord_def)
  have tags: "b_tags alphaRecord = [js ''dev'']" "b_tags betaRecord = [js ''dev'', js ''tools'']"
    "b_tags gammaRecord = []"
    by (simp_all add: alphaRecord_def betaRecord_def gammaRecord_def)
  have sub:
    "\<not> sublist (js ''tools'') (js ''alpha'')" "\<not> sublist (js ''tools'') (js ''beta'')"
    "\<not> sublist (js ''tools'') (js ''gamma'')"
    "\<not> sublist (js ''tools'') (js ''https://a.example/'')"
    "\<not> sublist (js ''tools'') (js ''https://b.example/'')"
    "\<not> sublist (js ''tools'') (js ''https://c.example/'')"
    "\<not> sublist (js ''tools'') (js ''dev'')" "sublist (js ''tools'') (js ''tools'')"
    by (simp_all add: js_def str_includes_sublist [symmetric])
  note t1 = keyword_filter_exact [of asciiBrowser "js ''   ''" threeStore commaRecord "js ''SITE''" threeState]
  note t2 = keyword_filter_exact [of asciiBrowser "js '' TOOLS ''" threeStore commaRecord "js ''SITE''" threeState]
  have wl: "list_all isWhiteSpace (toLowerCase asciiBrowser (js ''   ''))"
    using w by (simp add: ascii_lower_examples)
  have s1: "BookmarkDB_search asciiBrowser (js ''   '') threeStore = [alphaRecord, betaRecord, gammaRecord]"
    using t1 [THEN conjunct2, THEN conjunct1] wl by (simp add: threeStore_all)
  have s2: "BookmarkDB_search asciiBrowser (js '' TOOLS '') threeStore = [betaRecord]"
    using t2 [THEN conjunct1]
    by (simp add: kw ne threeStore_all tags lowers sub)
  have m: "matchesKeyword asciiBrowser commaRecord (js ''SITE'')"
  proof -
    have "sublist (js ''site'') (js ''site'')" by simp
    then show ?thesis
      using t1 [THEN conjunct2, THEN conjunct2, THEN conjunct1]
      by (simp add: ascii_lower_examples commaRecord_lower)
  qed
  have o: "st_items (fst (onSearch asciiBrowser (js ''   '') threeState)) =
       Array_sort asciiBrowser (createdAtDesc asciiBrowser) [alphaRecord, betaRecord, gammaRecord]"
    using t1 [THEN conjunct2, THEN conjunct2, THEN conjunct2, THEN conjunct2, THEN conjunct1] w
    by (simp add: threeState_def threeStore_all)
  show ?thesis
    using w wl s1 s2 m o by simp
qed

end
